theory Spec2Isabelle
  imports Main "HOL-Library.Char_ord" "HOL-Library.List_Lexorder"
begin

text \<open>
  The object store of the jsii kernel (\<^verbatim>\<open>object-store.ts\<close>, \<^verbatim>\<open>object-handle.ts\<close>,
  \<^verbatim>\<open>interface-collection.ts\<close>, \<^verbatim>\<open>sequence.ts\<close>) and the reference table of the Java
  host (\<^verbatim>\<open>ObjectStore.java\<close>), as functions on explicit states. A method that mutates
  returns the new state; a method that can throw returns the error as a value, beside
  the state the call left behind.
\<close>

section \<open>Errors\<close>

text \<open>
  Every \<^verbatim>\<open>throw\<close> and failed \<^verbatim>\<open>assert\<close> of the sources is a value of this type. The
  constructors carry the names the specification gives to the error kinds; the
  exception the code really raises is noted beside each.
\<close>

datatype error =
    NullArgument          \<comment> \<open>\<^verbatim>\<open>TypeError('Attempted to register "null" object!')\<close>\<close>
  | UnknownReference      \<comment> \<open>\<^verbatim>\<open>Error('Could not find handle registered with ID: ...')\<close>\<close>
  | StillReachable        \<comment> \<open>\<^verbatim>\<open>AssertionError('Attempted to delete user-reachable object: ...')\<close>\<close>
  | InvalidType           \<comment> \<open>\<^verbatim>\<open>Error('Expected an interface (a class), but received ...')\<close>\<close>
  | InvalidSequence       \<comment> \<open>\<^verbatim>\<open>AssertionError\<close> of the \<^verbatim>\<open>Sequence\<close> constructor\<close>
  | TypeError             \<comment> \<open>a \<^verbatim>\<open>TypeError\<close> thrown by the JavaScript engine itself\<close>
  | RangeError            \<comment> \<open>\<^verbatim>\<open>RangeError\<close>: maximum call stack size exceeded\<close>
  | NullPointerException  \<comment> \<open>Java: a method called on \<^verbatim>\<open>null\<close>\<close>
  | IllegalStateException \<comment> \<open>Java: \<^verbatim>\<open>"Referent object was already reclaimed!"\<close>\<close>

section \<open>JavaScript \<^verbatim>\<open>Set<string>\<close>\<close>

text \<open>
  A JavaScript \<^verbatim>\<open>Set\<close> iterates in insertion order and holds each element once: it is a
  list without duplicates. \<^verbatim>\<open>add\<close> appends an absent element, \<^verbatim>\<open>delete\<close> removes it.
\<close>

definition Set_add :: "'a \<Rightarrow> 'a list \<Rightarrow> 'a list" where
  "Set_add x xs = (if x \<in> set xs then xs else xs @ [x])"

definition Set_delete :: "'a \<Rightarrow> 'a list \<Rightarrow> 'a list" where
  "Set_delete x xs = removeAll x xs"

text \<open>\<^verbatim>\<open>new Set(iterable)\<close>: the elements are added one after the other.\<close>

definition Set_of :: "'a list \<Rightarrow> 'a list" where
  "Set_of xs = fold Set_add xs []"

section \<open>JavaScript numbers\<close>

text \<open>
  A JavaScript number is an IEEE 754 double. The sequence holds only doubles whose value
  is an integer, or an infinity: \<open>Num k\<close> is the double of integer value \<open>k\<close>. Every integer
  up to \<open>2^53\<close> in magnitude is a double; a larger one is a double when it is a multiple of
  the power of two \<open>2^e\<close> that leaves it 53 significant bits.
\<close>

datatype number = Num int | Infinity | NegInfinity

text \<open>The number of low bits a natural number has beyond 53 significant ones.\<close>

function expo :: "nat \<Rightarrow> nat" where
  "expo n = (if n < 9007199254740992 then 0 else Suc (expo (n div 2)))"
  by pat_completeness auto
termination
  by (relation "measure id") auto

declare expo.simps [simp del]

text \<open>
  Rounding to the nearest double, a tie going to the even significand: \<open>q\<close> is the
  significand, \<open>r\<close> what is cut off.
\<close>

definition roundNat :: "nat \<Rightarrow> nat" where
  "roundNat n =
     (let e = expo n; q = n div 2 ^ e; r = n mod 2 ^ e in
      if 2 * r < 2 ^ e then q * 2 ^ e
      else if 2 ^ e < 2 * r then (q + 1) * 2 ^ e
      else if even q then q * 2 ^ e
      else (q + 1) * 2 ^ e)"

text \<open>The double of an integer: what rounds to \<open>2^1024\<close> or beyond is an infinity.\<close>

definition toNumber :: "int \<Rightarrow> number" where
  "toNumber k =
     (let m = int (roundNat (nat \<bar>k\<bar>)) in
      if 2 ^ 1024 \<le> m then (if k < 0 then NegInfinity else Infinity)
      else Num (if k < 0 then - m else m))"

text \<open>An integer that is the value of a double.\<close>

definition isDouble :: "int \<Rightarrow> bool" where
  "isDouble k = (toNumber k = Num k)"

text \<open>\<^verbatim>\<open>a + b\<close> where \<open>b\<close> is a finite integer: the exact sum, rounded.\<close>

fun numPlus :: "number \<Rightarrow> int \<Rightarrow> number" where
  "numPlus (Num a) b = toNumber (a + b)"
| "numPlus Infinity b = Infinity"
| "numPlus NegInfinity b = NegInfinity"

declare numPlus.simps [simp del]

text \<open>\<^verbatim>\<open>a < b\<close> on these numbers.\<close>

fun numLess :: "number \<Rightarrow> number \<Rightarrow> bool" where
  "numLess (Num a) (Num b) = (a < b)"
| "numLess (Num a) Infinity = True"
| "numLess (Num a) NegInfinity = False"
| "numLess Infinity b = False"
| "numLess NegInfinity (Num b) = True"
| "numLess NegInfinity Infinity = True"
| "numLess NegInfinity NegInfinity = False"

subsection \<open>Rendering a number in a template string\<close>

text \<open>
  \<^verbatim>\<open>`${n}`\<close> is \<^verbatim>\<open>Number::toString\<close>. It takes the least number \<open>k\<close> of digits such that a
  \<open>k\<close>-digit integer \<open>s\<close> and an \<open>n\<close> exist with \<open>s * 10^(n-k)\<close> reading back as the number,
  and prints \<open>s\<close> followed by \<open>n - k\<close> zeros when \<open>n \<le> 21\<close>, and in exponent notation from
  \<open>n = 22\<close> on, that is from \<^verbatim>\<open>1e21\<close>.
\<close>

definition digit_char :: "nat \<Rightarrow> char" where
  "digit_char d = ''0123456789'' ! d"

fun digits10 :: "nat \<Rightarrow> string" where
  "digits10 n = (if n < 10 then [digit_char n] else digits10 (n div 10) @ [digit_char (n mod 10)])"

declare digits10.simps [simp del]

text \<open>\<open>s\<close> has \<open>k\<close> digits and \<open>s * 10^(n-k)\<close> reads back as \<open>x\<close>.\<close>

definition readsBack :: "nat \<Rightarrow> nat \<Rightarrow> nat \<Rightarrow> nat \<Rightarrow> bool" where
  "readsBack x k s n = (10 ^ (k - 1) \<le> s \<and> s < 10 ^ k \<and> roundNat (s * 10 ^ (n - k)) = x)"

text \<open>
  The \<open>k\<close>-digit \<open>s\<close> and the \<open>n\<close> for \<open>x\<close>, if any: \<open>s * 10^(n-k)\<close> is one of the two multiples
  of \<open>10^(l-k)\<close> around \<open>x\<close>, where \<open>l\<close> is the number of digits of \<open>x\<close>; of two that read
  back, the closer to \<open>x\<close>, and the even \<open>s\<close> when they are as close.
\<close>

definition digitsOfLength :: "nat \<Rightarrow> nat \<Rightarrow> (nat \<times> nat) option" where
  "digitsOfLength x k =
     (let l = length (digits10 x); p = 10 ^ (l - k); s = x div p;
          lo = (s, l);
          hi = (if s + 1 = 10 ^ k then (10 ^ (k - 1), l + 1) else (s + 1, l));
          okLo = readsBack x k (fst lo) (snd lo);
          okHi = readsBack x k (fst hi) (snd hi);
          dLo = x - s * p;
          dHi = (s + 1) * p - x in
      if okLo \<and> okHi then
        (if dLo < dHi then Some lo else if dHi < dLo then Some hi
         else if even (fst lo) then Some lo else Some hi)
      else if okLo then Some lo
      else if okHi then Some hi
      else None)"

text \<open>The first of the lengths \<open>ks\<close> that has digits: \<open>(s, k, n)\<close>.\<close>

fun shortestDigits :: "nat \<Rightarrow> nat list \<Rightarrow> (nat \<times> nat \<times> nat) option" where
  "shortestDigits x [] = None"
| "shortestDigits x (k # ks) =
     (case digitsOfLength x k of
        Some (s, n) \<Rightarrow> Some (s, k, n)
      | None \<Rightarrow> shortestDigits x ks)"

definition renderDigits :: "nat \<Rightarrow> nat \<Rightarrow> nat \<Rightarrow> string" where
  "renderDigits s k n =
     (if n \<le> 21 then digits10 s @ replicate (n - k) (CHR ''0'')
      else if k = 1 then digits10 s @ ''e+'' @ digits10 (n - 1)
      else hd (digits10 s) # CHR ''.'' # tl (digits10 s) @ ''e+'' @ digits10 (n - 1))"

text \<open>
  Up to \<open>2^53\<close> every integer is a double and no shorter decimal reads back as it: the
  digits are its own. Beyond, seventeen digits always suffice.
\<close>

definition natToString :: "nat \<Rightarrow> string" where
  "natToString x =
     (if x \<le> 2 ^ 53 then digits10 x
      else case shortestDigits x [1 ..< 18] of
             Some (s, k, n) \<Rightarrow> renderDigits s k n
           | None \<Rightarrow> digits10 x)"

fun numToString :: "number \<Rightarrow> string" where
  "numToString (Num k) =
     (if k < 0 then CHR ''-'' # natToString (nat (- k)) else natToString (nat k))"
| "numToString Infinity = ''Infinity''"
| "numToString NegInfinity = ''-Infinity''"

declare numToString.simps [simp del]

section \<open>The instance ID sequence (\<^verbatim>\<open>sequence.ts\<close>)\<close>

text \<open>
  The constructor asserts \<^verbatim>\<open>origin >= 0 && Number.isInteger(origin)\<close>, then
  \<^verbatim>\<open>stride > 0 && Number.isInteger(stride)\<close>. An infinity is no integer; a double with a
  fraction and \<^verbatim>\<open>NaN\<close> fail the assertion as well and are not values of \<open>number\<close>. The
  stride is therefore kept as the integer it is. The arguments are doubles: an integer
  that is none (\<open>isDouble\<close> is false of it) cannot be passed.
\<close>

record sequence =
  stride :: int
  nextValue :: number

definition Sequence_new :: "number \<Rightarrow> number \<Rightarrow> error + sequence" where
  "Sequence_new origin strd =
     (case origin of
        Num a \<Rightarrow>
          if \<not> (a \<ge> 0) then Inl InvalidSequence
          else (case strd of
                  Num b \<Rightarrow>
                    if \<not> (b > 0) then Inl InvalidSequence
                    else Inr \<lparr> stride = b, nextValue = Num a \<rparr>
                | _ \<Rightarrow> Inl InvalidSequence)
      | _ \<Rightarrow> Inl InvalidSequence)"

text \<open>\<^verbatim>\<open>new Sequence()\<close>: origin 10000, stride 1.\<close>

definition Sequence_default :: sequence where
  "Sequence_default = \<lparr> stride = 1, nextValue = Num 10000 \<rparr>"

text \<open>
  \<^verbatim>\<open>next()\<close> returns the current value and advances by the stride:
  \<^verbatim>\<open>this.nextValue += this.stride\<close> is an addition of doubles.
\<close>

definition Sequence_next :: "sequence \<Rightarrow> number \<times> sequence" where
  "Sequence_next q = (nextValue q, q\<lparr> nextValue := numPlus (nextValue q) (stride q) \<rparr>)"

text \<open>The result of the \<open>(n+1)\<close>-th call of \<^verbatim>\<open>next()\<close>: \<open>n\<close> calls are made first.\<close>

fun Sequence_nth_call :: "nat \<Rightarrow> sequence \<Rightarrow> number" where
  "Sequence_nth_call 0 q = fst (Sequence_next q)"
| "Sequence_nth_call (Suc n) q = Sequence_nth_call n (snd (Sequence_next q))"

section \<open>The interface closure (\<^verbatim>\<open>interface-collection.ts\<close>)\<close>

datatype typeKind = ClassKind | InterfaceKind | EnumKind

text \<open>
  The part of a jsii type descriptor that the closure reads: its kind, the base class
  (\<^verbatim>\<open>base?\<close>) and the interfaces it names (\<^verbatim>\<open>interfaces?\<close>).
\<close>

record jsiiType =
  kind :: typeKind
  base :: "string option"
  interfaces :: "string list option"

text \<open>
  Modelled from the spec: \<^verbatim>\<open>isClassType\<close> and \<^verbatim>\<open>isInterfaceType\<close> of \<^verbatim>\<open>@jsii/spec\<close> are not
  among the sources; the type loader's descriptor has a \<^verbatim>\<open>kind\<close> of class, interface or
  enum, and the builder fails when the resolved type is not of the expected kind.
\<close>

definition isClassType :: "jsiiType \<Rightarrow> bool" where
  "isClassType ti = (kind ti = ClassKind)"

definition isInterfaceType :: "jsiiType \<Rightarrow> bool" where
  "isInterfaceType ti = (kind ti = InterfaceKind)"

text \<open>
  Modelled from the spec: the constant \<^verbatim>\<open>EMPTY_OBJECT_FQN\<close> of \<^verbatim>\<open>serialization.ts\<close> is not
  among the sources; the class FQN of an anonymous instance is \<^verbatim>\<open>Object\<close>.
\<close>

definition EMPTY_OBJECT_FQN :: string where
  "EMPTY_OBJECT_FQN = ''Object''"

text \<open>
  The collection's \<^verbatim>\<open>interfaces\<close> set is mutated in place, so every function returns the
  set as it stands, together with the error when one was thrown on the way. The first
  argument bounds the depth of the recursion, as the engine's call stack does: at depth
  zero the call throws \<^verbatim>\<open>RangeError\<close>. The loop over \<^verbatim>\<open>ti.interfaces\<close> is
  \<open>addInterfaces\<close>; it skips a name the set already has and otherwise adds it and walks
  its parents.
\<close>

fun addFromInterface :: "nat \<Rightarrow> (string \<Rightarrow> jsiiType) \<Rightarrow> string \<Rightarrow> string list \<Rightarrow> string list \<times> error option"
  and addInterfaces :: "nat \<Rightarrow> (string \<Rightarrow> jsiiType) \<Rightarrow> string list \<Rightarrow> string list \<Rightarrow> string list \<times> error option"
where
  "addFromInterface 0 r fqn S = (S, Some RangeError)"
| "addFromInterface (Suc d) r fqn S =
     (let ti = r fqn in
      if \<not> isInterfaceType ti then (S, Some InvalidType)
      else (case interfaces ti of
              None \<Rightarrow> (S, None)
            | Some ifaces \<Rightarrow> addInterfaces d r ifaces S))"
| "addInterfaces d r [] S = (S, None)"
| "addInterfaces d r (iface # rest) S =
     (if iface \<in> set S then addInterfaces d r rest S
      else (case addFromInterface d r iface (Set_add iface S) of
              (S', Some e) \<Rightarrow> (S', Some e)
            | (S', None) \<Rightarrow> addInterfaces d r rest S'))"

text \<open>\<^verbatim>\<open>if (ti.base)\<close>: an absent base and the empty string are both falsy.\<close>

fun addFromClass :: "nat \<Rightarrow> (string \<Rightarrow> jsiiType) \<Rightarrow> string \<Rightarrow> string list \<Rightarrow> string list \<times> error option" where
  "addFromClass 0 r fqn S = (S, Some RangeError)"
| "addFromClass (Suc d) r fqn S =
     (let ti = r fqn in
      if \<not> isClassType ti then (S, Some InvalidType)
      else (case (case base ti of
                    None \<Rightarrow> (S, None)
                  | Some b \<Rightarrow> if b = [] then (S, None) else addFromClass d r b S) of
              (S1, Some e) \<Rightarrow> (S1, Some e)
            | (S1, None) \<Rightarrow>
                (case interfaces ti of
                   None \<Rightarrow> (S1, None)
                 | Some ifaces \<Rightarrow> addInterfaces d r ifaces S1)))"

text \<open>\<^verbatim>\<open>new InterfaceCollection(resolveType, classFQN)\<close>.\<close>

definition InterfaceCollection_new :: "nat \<Rightarrow> (string \<Rightarrow> jsiiType) \<Rightarrow> string \<Rightarrow> string list \<times> error option" where
  "InterfaceCollection_new d r cls =
     (if cls \<noteq> EMPTY_OBJECT_FQN then addFromClass d r cls [] else ([], None))"

section \<open>Property descriptors of the JavaScript engine\<close>

text \<open>
  The sources define properties with all four attributes given, so a descriptor is a
  complete data descriptor.
\<close>

record 'v propertyDescriptor =
  configurable :: bool
  enumerable :: bool
  pvalue :: 'v
  writable :: bool

text \<open>
  The engine's check of a complete data descriptor \<open>desc\<close> against the current own
  property (ECMAScript \<^verbatim>\<open>ValidateAndApplyPropertyDescriptor\<close>): a new property needs an
  extensible object; a non-configurable property cannot become configurable or change
  its enumerability, and when it is also non-writable it cannot become writable or
  change its value.
\<close>

definition validatePropertyDescriptor ::
  "bool \<Rightarrow> 'v propertyDescriptor \<Rightarrow> 'v propertyDescriptor option \<Rightarrow> bool" where
  "validatePropertyDescriptor extensibleObj desc current =
     (case current of
        None \<Rightarrow> extensibleObj
      | Some cur \<Rightarrow>
          if \<not> configurable cur then
            (if configurable desc then False
             else if enumerable desc \<noteq> enumerable cur then False
             else if \<not> writable cur then
               (if writable desc then False
                else if pvalue desc \<noteq> pvalue cur then False
                else True)
             else True)
          else True)"

text \<open>
  The internal method \<^verbatim>\<open>GetOwnProperty\<close> of a \<^verbatim>\<open>Proxy\<close> whose handler has a
  \<^verbatim>\<open>getOwnPropertyDescriptor\<close> trap (ECMAScript, internal methods of proxy objects). The
  engine calls the trap, reads the own property of the target, and checks the one against
  the other; it throws \<^verbatim>\<open>TypeError\<close> when an invariant is broken:
  \<^item> the trap returned \<^verbatim>\<open>undefined\<close>: the target's property, if it exists, must be
    configurable and the target extensible;
  \<^item> the trap returned a descriptor: it must be compatible with the target's property,
    as for \<^verbatim>\<open>Object.defineProperty\<close>; and if it says non-configurable, the target must
    have the property as a non-configurable own property (and as a non-writable one,
    if the descriptor says non-writable).
  Otherwise the trap's descriptor is the result.
\<close>

definition Proxy_GetOwnProperty ::
  "bool \<Rightarrow> 'v propertyDescriptor option \<Rightarrow> 'v propertyDescriptor option
     \<Rightarrow> error + 'v propertyDescriptor option" where
  "Proxy_GetOwnProperty extensibleTarget trapResult targetDesc =
     (case trapResult of
        None \<Rightarrow>
          (case targetDesc of
             None \<Rightarrow> Inr None
           | Some td \<Rightarrow>
               if \<not> configurable td then Inl TypeError
               else if \<not> extensibleTarget then Inl TypeError
               else Inr None)
      | Some resultDesc \<Rightarrow>
          if \<not> validatePropertyDescriptor extensibleTarget resultDesc targetDesc
          then Inl TypeError
          else if \<not> configurable resultDesc then
            (case targetDesc of
               None \<Rightarrow> Inl TypeError
             | Some td \<Rightarrow>
                 if configurable td then Inl TypeError
                 else if \<not> writable resultDesc \<and> writable td then Inl TypeError
                 else Inr (Some resultDesc))
          else Inr (Some resultDesc))"

section \<open>Objects and proxies (\<^verbatim>\<open>object-handle.ts\<close>)\<close>

text \<open>
  Object identity is the identity of these terms. \<open>HandleProxy p x\<close> is the \<open>p\<close>-th proxy
  an \<^verbatim>\<open>ObjectHandle\<close> minted, \<^verbatim>\<open>new Proxy(x, new RealObjectProxyHandler(x))\<close>. A
  \<open>ForeignProxy\<close> is any other \<^verbatim>\<open>Proxy\<close>, taken to have no trap for property descriptors.
\<close>

datatype jsobject = PlainObject nat | ForeignProxy nat | HandleProxy nat jsobject

text \<open>\<^verbatim>\<open>types.isProxy\<close> of Node's \<^verbatim>\<open>util\<close>.\<close>

fun isProxy :: "jsobject \<Rightarrow> bool" where
  "isProxy (PlainObject n) = False"
| "isProxy (ForeignProxy n) = True"
| "isProxy (HandleProxy p x) = True"

text \<open>
  \<^verbatim>\<open>RealObjectProxyHandler.getOwnPropertyDescriptor(target, realObjectSymbol)\<close>: the
  descriptor the trap inserts.
\<close>

definition RealObjectProxyHandler_getOwnPropertyDescriptor ::
  "jsobject \<Rightarrow> jsobject propertyDescriptor option" where
  "RealObjectProxyHandler_getOwnPropertyDescriptor realObj =
     Some \<lparr> configurable = False, enumerable = False, pvalue = realObj, writable = False \<rparr>"

text \<open>
  \<^verbatim>\<open>Object.getOwnPropertyDescriptor(instance, RealObjectProxyHandler.realObjectSymbol)\<close>.
  The symbol is a private static of a class the module does not export, so no object has
  it as an own property. On a handle's proxy the engine calls the trap and checks its
  result against the target (whether the target is extensible does not change the
  outcome; ordinary objects are).
\<close>

fun getOwnPropertyDescriptor_realObjectSymbol ::
  "jsobject \<Rightarrow> error + jsobject propertyDescriptor option" where
  "getOwnPropertyDescriptor_realObjectSymbol (PlainObject n) = Inr None"
| "getOwnPropertyDescriptor_realObjectSymbol (ForeignProxy n) = Inr None"
| "getOwnPropertyDescriptor_realObjectSymbol (HandleProxy p target) =
     (case getOwnPropertyDescriptor_realObjectSymbol target of
        Inl e \<Rightarrow> Inl e
      | Inr targetDesc \<Rightarrow>
          Proxy_GetOwnProperty True (RealObjectProxyHandler_getOwnPropertyDescriptor target) targetDesc)"

text \<open>\<^verbatim>\<open>ObjectHandle.realObject(instance)\<close>; \<^verbatim>\<open>ownProp?.value ?? instance\<close>.\<close>

definition realObject :: "jsobject \<Rightarrow> error + jsobject" where
  "realObject instance =
     (if isProxy instance then
        (case getOwnPropertyDescriptor_realObjectSymbol instance of
           Inl e \<Rightarrow> Inl e
         | Inr ownProp \<Rightarrow>
             Inr (case ownProp of None \<Rightarrow> instance | Some d \<Rightarrow> pvalue d))
      else Inr instance)"

section \<open>Object handles (\<^verbatim>\<open>object-handle.ts\<close>)\<close>

text \<open>
  \<open>proxyReference\<close> is the \<^verbatim>\<open>WeakRef\<close> to the proxy: the number of the proxy it was made
  for, if any. Whether it still resolves is a matter of the garbage collector, which the
  store's state records.
\<close>

record objectHandle =
  classFQN :: string
  instanceId :: string
  object :: jsobject
  proxyReference :: "nat option"
  declaredInterfaces :: "string list"
  providedInterfaces :: "string list"

text \<open>The wire reference: \<^verbatim>\<open>TOKEN_REF\<close> and the optional \<^verbatim>\<open>TOKEN_INTERFACES\<close>.\<close>

record objRef =
  TOKEN_REF :: string
  TOKEN_INTERFACES :: "string list option"

text \<open>\<^verbatim>\<open>for (const fqn of this.declaredInterfaces) this.providedInterfaces.addFromInterface(fqn)\<close>.\<close>

fun addAllFromInterfaces ::
  "nat \<Rightarrow> (string \<Rightarrow> jsiiType) \<Rightarrow> string list \<Rightarrow> string list \<Rightarrow> string list \<times> error option" where
  "addAllFromInterfaces d r [] S = (S, None)"
| "addAllFromInterfaces d r (fqn # rest) S =
     (case addFromInterface d r fqn S of
        (S', Some e) \<Rightarrow> (S', Some e)
      | (S', None) \<Rightarrow> addAllFromInterfaces d r rest S')"

text \<open>\<^verbatim>\<open>for (const fqn of this.providedInterfaces) this.declaredInterfaces.delete(fqn)\<close>.\<close>

definition deleteProvided :: "string list \<Rightarrow> string list \<Rightarrow> string list" where
  "deleteProvided provided declared = fold Set_delete provided declared"

text \<open>
  The constructor. It takes the next number of the sequence first, so the sequence has
  advanced also when the interface closure throws; it returns the sequence beside the
  handle or the error.
\<close>

definition ObjectHandle_new ::
  "nat \<Rightarrow> (string \<Rightarrow> jsiiType) \<Rightarrow> sequence \<Rightarrow> string \<Rightarrow> jsobject \<Rightarrow> string list
     \<Rightarrow> (error + objectHandle) \<times> sequence" where
  "ObjectHandle_new d r sq cls inst interfaceFQNs =
     (let (n, sq') = Sequence_next sq;
          iid = cls @ ''@'' @ numToString n;
          declared = Set_of interfaceFQNs
      in case InterfaceCollection_new d r cls of
           (prov0, Some e) \<Rightarrow> (Inl e, sq')
         | (prov0, None) \<Rightarrow>
             (case addAllFromInterfaces d r declared prov0 of
                (prov, Some e) \<Rightarrow> (Inl e, sq')
              | (prov, None) \<Rightarrow>
                  (Inr \<lparr> classFQN = cls, instanceId = iid, object = inst,
                         proxyReference = None,
                         declaredInterfaces = deleteProvided prov declared,
                         providedInterfaces = prov \<rparr>, sq')))"

text \<open>\<^verbatim>\<open>get interfaces()\<close>: the declared interfaces, sorted.\<close>

definition ObjectHandle_interfaces :: "objectHandle \<Rightarrow> string list" where
  "ObjectHandle_interfaces h = sort (declaredInterfaces h)"

definition ObjectHandle_objRef :: "objectHandle \<Rightarrow> objRef" where
  "ObjectHandle_objRef h =
     (let ifs = ObjectHandle_interfaces h
      in \<lparr> TOKEN_REF = instanceId h,
           TOKEN_INTERFACES = (if length ifs > 0 then Some ifs else None) \<rparr>)"

text \<open>
  The first loop of \<^verbatim>\<open>mergeInterfaces\<close>, on the pair of the declared and the provided set.
  When \<^verbatim>\<open>addFromInterface\<close> throws, both sets stay as they are at that moment.
\<close>

fun mergeLoop ::
  "nat \<Rightarrow> (string \<Rightarrow> jsiiType) \<Rightarrow> string list \<Rightarrow> string list \<times> string list
     \<Rightarrow> (string list \<times> string list) \<times> error option" where
  "mergeLoop d r [] (declared, provided) = ((declared, provided), None)"
| "mergeLoop d r (fqn # rest) (declared, provided) =
     (case addFromInterface d r fqn provided of
        (provided', Some e) \<Rightarrow> ((declared, provided'), Some e)
      | (provided', None) \<Rightarrow> mergeLoop d r rest (Set_add fqn declared, provided'))"

definition ObjectHandle_mergeInterfaces ::
  "nat \<Rightarrow> (string \<Rightarrow> jsiiType) \<Rightarrow> string list \<Rightarrow> objectHandle \<Rightarrow> objectHandle \<times> error option" where
  "ObjectHandle_mergeInterfaces d r interfaceFQNs h =
     (if length interfaceFQNs = 0 then (h, None)
      else (case mergeLoop d r interfaceFQNs (declaredInterfaces h, providedInterfaces h) of
              ((declared, provided), Some e) \<Rightarrow>
                (h\<lparr> declaredInterfaces := declared, providedInterfaces := provided \<rparr>, Some e)
            | ((declared, provided), None) \<Rightarrow>
                (h\<lparr> declaredInterfaces := deleteProvided provided declared,
                    providedInterfaces := provided \<rparr>, None)))"

text \<open>
  A series of \<^verbatim>\<open>mergeInterfaces\<close> calls on one handle, each of which returned: the handle
  they leave. It is \<open>None\<close> as soon as one call throws.
\<close>

fun mergeAll ::
  "nat \<Rightarrow> (string \<Rightarrow> jsiiType) \<Rightarrow> string list list \<Rightarrow> objectHandle \<Rightarrow> objectHandle option" where
  "mergeAll d r [] h = Some h"
| "mergeAll d r (fqns # rest) h =
     (case ObjectHandle_mergeInterfaces d r fqns h of
        (h', None) \<Rightarrow> mergeAll d r rest h'
      | (h', Some e) \<Rightarrow> None)"

section \<open>The object store of the kernel (\<^verbatim>\<open>object-store.ts\<close>)\<close>

text \<open>The events of \<^verbatim>\<open>ObjectStoreEvents\<close>, each with the instance ID it carries.\<close>

datatype event = Managed string | Retained string | Releasable string | Unmanaged string

text \<open>
  The store's fields, and beside them what the code shares with the engine:
  \<^item> \<open>handleHeap\<close>: the \<^verbatim>\<open>ObjectHandle\<close> objects by address (\<open>handles\<close> and \<open>instanceInfo\<close>
    both point to the same mutable handle), \<open>nextHandle\<close> the next free address;
  \<^item> \<open>nextProxy\<close>: the number the next minted proxy gets; \<open>liveProxies\<close>: the proxies the
    garbage collector has not reclaimed, those a \<^verbatim>\<open>WeakRef\<close> still resolves;
  \<^item> \<open>finalizationRegistry\<close>: the registered pairs of a proxy and its held value, the
    handle's address;
  \<^item> \<open>emitted\<close>: the events emitted so far, in order.
  \<open>finalized\<close> is a \<^verbatim>\<open>Set<string>\<close>, \<open>handles\<close> a \<^verbatim>\<open>Map\<close> and \<open>instanceInfo\<close> a \<^verbatim>\<open>WeakMap\<close>.
\<close>

record objectStore =
  resolveType :: "string \<Rightarrow> jsiiType"
  idSequence :: sequence
  handles :: "string \<rightharpoonup> nat"
  instanceInfo :: "jsobject \<rightharpoonup> nat"
  finalizationRegistry :: "(nat \<times> nat) list"
  finalized :: "string list"
  emitted :: "event list"
  handleHeap :: "nat \<Rightarrow> objectHandle"
  nextHandle :: nat
  nextProxy :: nat
  liveProxies :: "nat set"

definition noHandle :: objectHandle where
  "noHandle = \<lparr> classFQN = [], instanceId = [], object = PlainObject 0,
                 proxyReference = None, declaredInterfaces = [], providedInterfaces = [] \<rparr>"

text \<open>\<^verbatim>\<open>new ObjectStore(resolveType)\<close>.\<close>

definition ObjectStore_new :: "(string \<Rightarrow> jsiiType) \<Rightarrow> objectStore" where
  "ObjectStore_new r =
     \<lparr> resolveType = r, idSequence = Sequence_default, handles = Map.empty,
       instanceInfo = Map.empty, finalizationRegistry = [], finalized = [], emitted = [],
       handleHeap = (\<lambda>a. noHandle), nextHandle = 0, nextProxy = 0, liveProxies = {} \<rparr>"

definition emit :: "event \<Rightarrow> objectStore \<Rightarrow> objectStore" where
  "emit ev s = s\<lparr> emitted := emitted s @ [ev] \<rparr>"

text \<open>\<^verbatim>\<open>get hasProxy()\<close>: \<^verbatim>\<open>this.proxyReference?.deref() != null\<close>.\<close>

definition hasProxy :: "objectStore \<Rightarrow> objectHandle \<Rightarrow> bool" where
  "hasProxy s h = (case proxyReference h of None \<Rightarrow> False | Some p \<Rightarrow> p \<in> liveProxies s)"

text \<open>
  \<^verbatim>\<open>get proxy()\<close> of the handle at address \<open>a\<close>: the live proxy if there is one; otherwise
  a new proxy over the handle's object, registered with the finalization registry with the
  handle as held value, and installed as the handle's weak reference.
\<close>

definition mintProxy :: "nat \<Rightarrow> objectStore \<Rightarrow> jsobject \<times> objectStore" where
  "mintProxy a s =
     (let h = handleHeap s a; p = nextProxy s in
      (HandleProxy p (object h),
       s\<lparr> nextProxy := Suc p,
          liveProxies := insert p (liveProxies s),
          finalizationRegistry := finalizationRegistry s @ [(p, a)],
          handleHeap := (handleHeap s)(a := h\<lparr> proxyReference := Some p \<rparr>) \<rparr>))"

definition ObjectHandle_proxy :: "nat \<Rightarrow> objectStore \<Rightarrow> jsobject \<times> objectStore" where
  "ObjectHandle_proxy a s =
     (case proxyReference (handleHeap s a) of
        None \<Rightarrow> mintProxy a s
      | Some p \<Rightarrow>
          if p \<in> liveProxies s then (HandleProxy p (object (handleHeap s a)), s)
          else mintProxy a s)"

text \<open>\<^verbatim>\<open>tryGetHandle\<close>: the address of the handle of the real object, if it has one.\<close>

definition tryGetHandle :: "objectStore \<Rightarrow> jsobject \<Rightarrow> error + nat option" where
  "tryGetHandle s inst =
     (case realObject inst of Inl e \<Rightarrow> Inl e | Inr x \<Rightarrow> Inr (instanceInfo s x))"

definition getHandle :: "objectStore \<Rightarrow> string \<Rightarrow> error + nat" where
  "getHandle s iid = (case handles s iid of None \<Rightarrow> Inl UnknownReference | Some a \<Rightarrow> Inr a)"

text \<open>\<^verbatim>\<open>delete(ref)\<close>, with \<open>iid = ref[TOKEN_REF]\<close>.\<close>

definition ObjectStore_delete :: "string \<Rightarrow> objectStore \<Rightarrow> (error + unit) \<times> objectStore" where
  "ObjectStore_delete iid s =
     (if (case handles s iid of None \<Rightarrow> False | Some a \<Rightarrow> hasProxy s (handleHeap s a))
      then (Inl StillReachable, s)
      else if handles s iid \<noteq> None
        then (Inr (), emit (Unmanaged iid) (s\<lparr> handles := (handles s)(iid := None) \<rparr>))
        else (Inr (), s))"

text \<open>The value \<^verbatim>\<open>dereference\<close> returns.\<close>

record dereferenced =
  d_classFQN :: string
  d_instance :: jsobject
  d_interfaces :: "string list"

definition ObjectStore_dereference ::
  "string \<Rightarrow> objectStore \<Rightarrow> (error + dereferenced) \<times> objectStore" where
  "ObjectStore_dereference iid s =
     (case getHandle s iid of
        Inl e \<Rightarrow> (Inl e, s)
      | Inr a \<Rightarrow>
          (let cls = classFQN (handleHeap s a);
               (prx, s') = ObjectHandle_proxy a s
           in (Inr \<lparr> d_classFQN = cls, d_instance = prx,
                     d_interfaces = ObjectHandle_interfaces (handleHeap s' a) \<rparr>, s')))"

definition ObjectStore_refObject :: "jsobject \<Rightarrow> objectStore \<Rightarrow> error + objRef option" where
  "ObjectStore_refObject obj s =
     (case tryGetHandle s obj of
        Inl e \<Rightarrow> Inl e
      | Inr None \<Rightarrow> Inr None
      | Inr (Some a) \<Rightarrow> Inr (Some (ObjectHandle_objRef (handleHeap s a))))"

text \<open>
  \<^verbatim>\<open>finalizedInstanceIds()\<close>: the filter runs in the \<^verbatim>\<open>try\<close> block, the \<^verbatim>\<open>finally\<close> block
  clears the set.
\<close>

definition ObjectStore_finalizedInstanceIds :: "objectStore \<Rightarrow> string list \<times> objectStore" where
  "ObjectStore_finalizedInstanceIds s =
     (filter (\<lambda>iid. \<not> (case handles s iid of
                          None \<Rightarrow> False
                        | Some a \<Rightarrow> hasProxy s (handleHeap s a))) (finalized s),
      s\<lparr> finalized := [] \<rparr>)"

text \<open>\<^verbatim>\<open>onProxyFinalized(handle)\<close>, the handle given by its address.\<close>

definition ObjectStore_onProxyFinalized :: "nat \<Rightarrow> objectStore \<Rightarrow> objectStore" where
  "ObjectStore_onProxyFinalized a s =
     (let iid = instanceId (handleHeap s a)
      in emit (Releasable iid) (s\<lparr> finalized := Set_add iid (finalized s) \<rparr>))"

text \<open>The options of \<^verbatim>\<open>register\<close>; \<open>None\<close> is a \<^verbatim>\<open>null\<close> or \<^verbatim>\<open>undefined\<close> instance.\<close>

record registerOptions =
  o_classFQN :: string
  o_instance :: "jsobject option"
  o_interfaceFQNs :: "string list"

record managedObject =
  m_instance :: jsobject
  m_objRef :: objRef

text \<open>
  Modelled from the spec: \<^verbatim>\<open>register\<close> builds the handle with \<^verbatim>\<open>new ObjectHandle(this, ...)\<close>,
  a constructor that receives the store; it is not among the sources, where the
  constructor takes the options only and emits nothing. By the specification, for a new
  object the store allocates the instance ID, builds the handle, inserts it into both
  maps and emits \<^verbatim>\<open>managed(instanceId)\<close>.
\<close>

definition emitManaged :: "string \<Rightarrow> objectStore \<Rightarrow> objectStore" where
  "emitManaged iid s = emit (Managed iid) s"

text \<open>
  \<^verbatim>\<open>register(opts)\<close>. The first argument is the depth the call stack leaves to the
  interface closure.
\<close>

definition ObjectStore_register ::
  "nat \<Rightarrow> registerOptions \<Rightarrow> objectStore \<Rightarrow> (error + managedObject) \<times> objectStore" where
  "ObjectStore_register d opts s =
     (case o_instance opts of
        None \<Rightarrow> (Inl NullArgument, s)
      | Some inst \<Rightarrow>
          (case tryGetHandle s inst of
             Inl e \<Rightarrow> (Inl e, s)
           | Inr None \<Rightarrow>
               (case ObjectHandle_new d (resolveType s) (idSequence s)
                       (o_classFQN opts) inst (o_interfaceFQNs opts) of
                  (Inl e, sq) \<Rightarrow> (Inl e, s\<lparr> idSequence := sq \<rparr>)
                | (Inr h, sq) \<Rightarrow>
                    (let a = nextHandle s;
                         s1 = s\<lparr> idSequence := sq,
                                 handleHeap := (handleHeap s)(a := h),
                                 nextHandle := Suc a,
                                 handles := (handles s)(instanceId h \<mapsto> a),
                                 instanceInfo := (instanceInfo s)(inst \<mapsto> a) \<rparr>;
                         s2 = emitManaged (instanceId h) s1;
                         (prx, s3) = ObjectHandle_proxy a s2
                     in (Inr \<lparr> m_instance = prx,
                               m_objRef = ObjectHandle_objRef (handleHeap s3 a) \<rparr>, s3)))
           | Inr (Some a) \<Rightarrow>
               (case ObjectHandle_mergeInterfaces d (resolveType s) (o_interfaceFQNs opts)
                       (handleHeap s a) of
                  (h, Some e) \<Rightarrow> (Inl e, s\<lparr> handleHeap := (handleHeap s)(a := h) \<rparr>)
                | (h, None) \<Rightarrow>
                    (let s1 = s\<lparr> handleHeap := (handleHeap s)(a := h) \<rparr>;
                         (prx, s2) = ObjectHandle_proxy a s1
                     in (Inr \<lparr> m_instance = prx,
                               m_objRef = ObjectHandle_objRef (handleHeap s2 a) \<rparr>, s2)))))"

subsection \<open>The garbage collector\<close>

text \<open>
  The collector reclaims a proxy: from then on a \<^verbatim>\<open>WeakRef\<close> to it no longer resolves.
\<close>

definition collectProxy :: "nat \<Rightarrow> objectStore \<Rightarrow> objectStore" where
  "collectProxy p s = s\<lparr> liveProxies := liveProxies s - {p} \<rparr>"

text \<open>
  Later the \<^verbatim>\<open>FinalizationRegistry\<close> calls the store's callback with the held value of a
  registered proxy that was reclaimed, once for each registration.
\<close>

definition runFinalizer :: "nat \<Rightarrow> nat \<Rightarrow> objectStore \<Rightarrow> objectStore" where
  "runFinalizer p a s =
     (if (p, a) \<in> set (finalizationRegistry s) \<and> p \<notin> liveProxies s
      then ObjectStore_onProxyFinalized a
             (s\<lparr> finalizationRegistry := remove1 (p, a) (finalizationRegistry s) \<rparr>)
      else s)"

subsection \<open>Runs of the store\<close>

text \<open>
  What can happen to a store: the calls of its public methods, and the two moves of the
  garbage collector. \<open>exec\<close> gives the state a step leaves behind, whether it returned
  or threw.
\<close>

datatype operation =
    Register registerOptions
  | Dereference string
  | Delete string
  | RefObject jsobject
  | FinalizedInstanceIds
  | CollectProxy nat
  | RunFinalizer nat nat

fun exec :: "nat \<Rightarrow> operation \<Rightarrow> objectStore \<Rightarrow> objectStore" where
  "exec d (Register opts) s = snd (ObjectStore_register d opts s)"
| "exec d (Dereference iid) s = snd (ObjectStore_dereference iid s)"
| "exec d (Delete iid) s = snd (ObjectStore_delete iid s)"
| "exec d (RefObject obj) s = s"
| "exec d FinalizedInstanceIds s = snd (ObjectStore_finalizedInstanceIds s)"
| "exec d (CollectProxy p) s = collectProxy p s"
| "exec d (RunFinalizer p a) s = runFinalizer p a s"

fun run :: "nat \<Rightarrow> operation list \<Rightarrow> objectStore \<Rightarrow> objectStore" where
  "run d [] s = s"
| "run d (x # xs) s = run d xs (exec d x s)"

text \<open>The instance IDs the finalization callback was called for during a run, in order.\<close>

fun callbackIds :: "nat \<Rightarrow> operation list \<Rightarrow> objectStore \<Rightarrow> string list" where
  "callbackIds d [] s = []"
| "callbackIds d (RunFinalizer p a # xs) s =
     (if (p, a) \<in> set (finalizationRegistry s) \<and> p \<notin> liveProxies s
      then instanceId (handleHeap s a) # callbackIds d xs (exec d (RunFinalizer p a) s)
      else callbackIds d xs (exec d (RunFinalizer p a) s))"
| "callbackIds d (x # xs) s = callbackIds d xs (exec d x s)"

text \<open>Whether the handle registered under an instance ID has a live proxy.\<close>

definition liveProxyFor :: "objectStore \<Rightarrow> string \<Rightarrow> bool" where
  "liveProxyFor s iid =
     (case handles s iid of None \<Rightarrow> False | Some a \<Rightarrow> hasProxy s (handleHeap s a))"

subsection \<open>A small type universe for concrete runs\<close>

text \<open>
  A class \<^verbatim>\<open>X\<close> without interfaces, an interface \<^verbatim>\<open>IA\<close>, and an interface \<^verbatim>\<open>IB\<close> that
  extends \<^verbatim>\<open>IA\<close>; every other name is an enum.
\<close>

definition exampleTypes :: "string \<Rightarrow> jsiiType" where
  "exampleTypes fqn =
     (if fqn = ''X'' then \<lparr> kind = ClassKind, base = None, interfaces = None \<rparr>
      else if fqn = ''IA'' then \<lparr> kind = InterfaceKind, base = None, interfaces = None \<rparr>
      else if fqn = ''IB'' then \<lparr> kind = InterfaceKind, base = None, interfaces = Some [''IA''] \<rparr>
      else \<lparr> kind = EnumKind, base = None, interfaces = None \<rparr>)"

definition exampleOptions :: registerOptions where
  "exampleOptions = \<lparr> o_classFQN = ''X'', o_instance = Some (PlainObject 0), o_interfaceFQNs = [''IA''] \<rparr>"

text \<open>The store after \<^verbatim>\<open>register\<close> of a first object of class \<^verbatim>\<open>X\<close> declaring \<^verbatim>\<open>IA\<close>.\<close>

definition exampleStore :: objectStore where
  "exampleStore = snd (ObjectStore_register 10 exampleOptions (ObjectStore_new exampleTypes))"


text \<open>
  The registrations of a run that made a new handle and returned: the instance ID each
  returned, with the number the sequence stood at when it was called.
\<close>

fun newIds :: "nat \<Rightarrow> operation list \<Rightarrow> objectStore \<Rightarrow> (string \<times> number) list" where
  "newIds d [] s = []"
| "newIds d (Register opts # xs) s =
     (case o_instance opts of
        None \<Rightarrow> []
      | Some x \<Rightarrow>
          if tryGetHandle s x = Inr None then
            (case fst (ObjectStore_register d opts s) of
               Inl e \<Rightarrow> []
             | Inr m \<Rightarrow> [(TOKEN_REF (m_objRef m), nextValue (idSequence s))])
          else [])
     @ newIds d xs (exec d (Register opts) s)"
| "newIds d (x # xs) s = newIds d xs (exec d x s)"

text \<open>A second object of class \<^verbatim>\<open>X\<close>, declaring no interface.\<close>

definition exampleOptions2 :: registerOptions where
  "exampleOptions2 = \<lparr> o_classFQN = ''X'', o_instance = Some (PlainObject 2), o_interfaceFQNs = [] \<rparr>"

section \<open>The earlier store\<close>

text \<open>
  The sources also hold an earlier \<^verbatim>\<open>ObjectStore\<close>, whose handles keep their referent
  through \<^verbatim>\<open>retain\<close> and \<^verbatim>\<open>release\<close>, which has no \<^verbatim>\<open>delete\<close> and mints no proxy: its
  finalization registry is keyed on the referent and holds the instance ID. Its callback
  \<^verbatim>\<open>finalize(instanceId)\<close> touches the two fields below, which both stores have.
\<close>

definition ObjectStore_finalize :: "string \<Rightarrow> objectStore \<Rightarrow> objectStore" where
  "ObjectStore_finalize iid s =
     s\<lparr> finalized := Set_add iid (finalized s), handles := (handles s)(iid := None) \<rparr>"

section \<open>The interface hierarchy as a relation\<close>

text \<open>
  The interfaces a type descriptor names, and the relation between a name and each of
  them. The strict ancestors of a set of interfaces are what can be reached from its
  members by one or more steps.
\<close>

definition parents :: "(string \<Rightarrow> jsiiType) \<Rightarrow> string \<Rightarrow> string set" where
  "parents r fqn = (case interfaces (r fqn) of None \<Rightarrow> {} | Some ifaces \<Rightarrow> set ifaces)"

definition extends :: "(string \<Rightarrow> jsiiType) \<Rightarrow> (string \<times> string) set" where
  "extends r = {(fqn, p). p \<in> parents r fqn}"

definition ancestors :: "(string \<Rightarrow> jsiiType) \<Rightarrow> string set \<Rightarrow> string set" where
  "ancestors r X = (extends r)\<^sup>+ `` X"

text \<open>
  The closure of a class, said without the walk: the classes on its chain of base classes
  (a base that is absent or the empty string ends the chain), the interfaces these
  classes name, and everything reachable from those interfaces. The class \<^verbatim>\<open>Object\<close> has
  the empty closure.
\<close>

definition baseOf :: "(string \<Rightarrow> jsiiType) \<Rightarrow> (string \<times> string) set" where
  "baseOf r = {(c, b). base (r c) = Some b \<and> b \<noteq> []}"

definition classInterfaces :: "(string \<Rightarrow> jsiiType) \<Rightarrow> string \<Rightarrow> string set" where
  "classInterfaces r cls = (\<Union>c \<in> (baseOf r)\<^sup>* `` {cls}. parents r c)"

definition classClosure :: "(string \<Rightarrow> jsiiType) \<Rightarrow> string \<Rightarrow> string set" where
  "classClosure r cls =
     (if cls = EMPTY_OBJECT_FQN then {} else (extends r)\<^sup>* `` classInterfaces r cls)"

text \<open>A set of interfaces that holds the parents of each of its members.\<close>

definition closed :: "(string \<Rightarrow> jsiiType) \<Rightarrow> string set \<Rightarrow> bool" where
  "closed r V = (\<forall>n \<in> V. parents r n \<subseteq> V)"

text \<open>
  What a walk does to the set: from \<open>V\<close> to \<open>V'\<close> the set only grows, each new member has
  its parents in \<open>V'\<close>, and the new members come from \<open>X\<close>.
\<close>

definition grows :: "(string \<Rightarrow> jsiiType) \<Rightarrow> string list \<Rightarrow> string list \<Rightarrow> string set \<Rightarrow> bool" where
  "grows r V V' X =
     (set V \<subseteq> set V' \<and> (\<forall>n \<in> set V' - set V. parents r n \<subseteq> set V') \<and> set V' - set V \<subseteq> X)"

section \<open>Type objects and their FQN marker (\<^verbatim>\<open>registerType\<close>, \<^verbatim>\<open>typeFQN\<close>)\<close>

text \<open>
  A type object (a constructor or an enum object) as far as the store touches it: its
  own property under the store's \<^verbatim>\<open>typeInfo\<close> symbol, whether it is extensible, and its
  prototype (for a class that extends another, the constructor of the parent). Type
  objects are shared and mutated in place, so they live on a heap, by address.
\<close>

record typeObject =
  typeInfo :: "string propertyDescriptor option"
  extensible :: bool
  prototype :: "nat option"

text \<open>
  \<^verbatim>\<open>Object.defineProperty(obj, typeInfo, desc)\<close> on an ordinary object: the engine throws
  \<^verbatim>\<open>TypeError\<close> when the descriptor is not compatible with the current property, and
  otherwise the property has the attributes of the descriptor.
\<close>

definition Object_defineProperty ::
  "typeObject \<Rightarrow> string propertyDescriptor \<Rightarrow> error + typeObject" where
  "Object_defineProperty obj desc =
     (if validatePropertyDescriptor (extensible obj) desc (typeInfo obj)
      then Inr (obj\<lparr> typeInfo := Some desc \<rparr>)
      else Inl TypeError)"

definition ObjectStore_registerType ::
  "nat \<Rightarrow> string \<Rightarrow> (nat \<Rightarrow> typeObject) \<Rightarrow> (error + unit) \<times> (nat \<Rightarrow> typeObject)" where
  "ObjectStore_registerType ty fqn heap =
     (case Object_defineProperty (heap ty)
             \<lparr> configurable = False, enumerable = False, pvalue = fqn, writable = False \<rparr> of
        Inl e \<Rightarrow> (Inl e, heap)
      | Inr obj \<Rightarrow> (Inr (), heap(ty := obj)))"

text \<open>
  Reading \<^verbatim>\<open>obj[typeInfo]\<close>: the own property if there is one, otherwise the same
  question to the prototype, and \<^verbatim>\<open>undefined\<close> (the inner \<open>None\<close>) at the end of the
  chain. The outer \<open>None\<close> is a walk that does not end, which the engine excludes: it
  admits no cycle of prototypes.
\<close>

partial_function (option) Get_typeInfo :: "(nat \<Rightarrow> typeObject) \<Rightarrow> nat \<Rightarrow> string option option" where
  "Get_typeInfo heap a =
     (case typeInfo (heap a) of
        Some desc \<Rightarrow> Some (Some (pvalue desc))
      | None \<Rightarrow>
          (case prototype (heap a) of
             None \<Rightarrow> Some None
           | Some p \<Rightarrow> Get_typeInfo heap p))"

text \<open>
  \<^verbatim>\<open>typeFQN(value)\<close> reads \<^verbatim>\<open>value.constructor[typeInfo]\<close>; the second argument is the
  address of the object \<^verbatim>\<open>value.constructor\<close>.
\<close>

definition ObjectStore_typeFQN :: "(nat \<Rightarrow> typeObject) \<Rightarrow> nat \<Rightarrow> string option option" where
  "ObjectStore_typeFQN heap ctor = Get_typeInfo heap ctor"

text \<open>
  \<open>prototypeChain heap a ps\<close>: the prototypes of \<open>a\<close>, in order, are \<open>ps\<close>, and the last has
  none. \<open>firstMarker\<close> is the value of the first marker among a list of own properties.
\<close>

fun prototypeChain :: "(nat \<Rightarrow> typeObject) \<Rightarrow> nat \<Rightarrow> nat list \<Rightarrow> bool" where
  "prototypeChain heap a [] = (prototype (heap a) = None)"
| "prototypeChain heap a (p # ps) = (prototype (heap a) = Some p \<and> prototypeChain heap p ps)"

fun firstMarker :: "string propertyDescriptor option list \<Rightarrow> string option" where
  "firstMarker [] = None"
| "firstMarker (None # rest) = firstMarker rest"
| "firstMarker (Some desc # rest) = Some (pvalue desc)"

text \<open>
  A heap for concrete runs: the type objects at addresses 0 and 1 are extensible and
  carry no marker; the one at 1 has the one at 0 as its prototype, as the constructor of
  a subclass has the constructor of its parent.
\<close>

definition exampleTypeHeap :: "nat \<Rightarrow> typeObject" where
  "exampleTypeHeap a =
     \<lparr> typeInfo = None, extensible = True, prototype = (if a = Suc 0 then Some 0 else None) \<rparr>"

section \<open>The reference table of the Java host (\<^verbatim>\<open>ObjectStore.java\<close>)\<close>

text \<open>
  Java objects and \<^verbatim>\<open>WeakReference\<close> objects are numbers. A handle holds its instance ID,
  its weak reference and the strong reference, \<open>None\<close> for \<^verbatim>\<open>null\<close>.
\<close>

record hostHandle =
  hostInstanceId :: string
  weakReference :: nat
  strongReference :: "nat option"

text \<open>
  The store's three fields, and beside them the referent of every \<^verbatim>\<open>WeakReference\<close>
  (what \<^verbatim>\<open>get()\<close> returns: \<open>None\<close> once the collector has cleared it) and the number of
  the next \<^verbatim>\<open>WeakReference\<close> to be made. \<open>referenceQueue\<close> holds the references the
  collector has enqueued, oldest first.
\<close>

record hostStore =
  objectsById :: "string \<rightharpoonup> hostHandle"
  referenceQueue :: "nat list"
  referenceInstanceId :: "nat \<rightharpoonup> string"
  referents :: "nat \<rightharpoonup> nat"
  nextReference :: nat

definition JavaObjectStore_new :: hostStore where
  "JavaObjectStore_new =
     \<lparr> objectsById = Map.empty, referenceQueue = [], referenceInstanceId = Map.empty,
       referents = Map.empty, nextReference = 0 \<rparr>"

text \<open>\<^verbatim>\<open>ObjectHandle.getReferent()\<close>.\<close>

definition getReferent :: "hostStore \<Rightarrow> hostHandle \<Rightarrow> nat option" where
  "getReferent s h =
     (case strongReference h of Some obj \<Rightarrow> Some obj | None \<Rightarrow> referents s (weakReference h))"

text \<open>
  \<^verbatim>\<open>ObjectHandle.retain()\<close>: the strong reference is assigned before the test, so it is
  \<^verbatim>\<open>null\<close> when the method throws.
\<close>

definition ObjectHandle_retain :: "hostStore \<Rightarrow> hostHandle \<Rightarrow> hostHandle \<times> error option" where
  "ObjectHandle_retain s h =
     (let h' = h\<lparr> strongReference := referents s (weakReference h) \<rparr>
      in if strongReference h' = None then (h', Some IllegalStateException) else (h', None))"

definition ObjectHandle_release :: "hostHandle \<Rightarrow> hostHandle" where
  "ObjectHandle_release h = h\<lparr> strongReference := None \<rparr>"

text \<open>
  The loop of \<^verbatim>\<open>getDroppedReferences\<close> over the references polled from the queue, on the
  result set and the two maps.
\<close>

fun drain ::
  "nat list \<Rightarrow> string set \<times> (string \<rightharpoonup> hostHandle) \<times> (nat \<rightharpoonup> string)
     \<Rightarrow> string set \<times> (string \<rightharpoonup> hostHandle) \<times> (nat \<rightharpoonup> string)" where
  "drain [] acc = acc"
| "drain (ref # queue) (result, byId, refIds) =
     (case refIds ref of
        None \<Rightarrow> drain queue (result, byId, refIds)
      | Some iid \<Rightarrow> drain queue (insert iid result, byId(iid := None), refIds(ref := None)))"

definition JavaObjectStore_getDroppedReferences :: "hostStore \<Rightarrow> string set \<times> hostStore" where
  "JavaObjectStore_getDroppedReferences s =
     (case drain (referenceQueue s) ({}, objectsById s, referenceInstanceId s) of
        (result, byId, refIds) \<Rightarrow>
          (result, s\<lparr> objectsById := byId, referenceInstanceId := refIds, referenceQueue := [] \<rparr>))"

definition JavaObjectStore_register :: "nat \<Rightarrow> string \<Rightarrow> hostStore \<Rightarrow> (error + unit) \<times> hostStore" where
  "JavaObjectStore_register obj iid s =
     (case objectsById s iid of
        Some h \<Rightarrow>
          (case ObjectHandle_retain s h of
             (h', Some e) \<Rightarrow> (Inl e, s\<lparr> objectsById := (objectsById s)(iid \<mapsto> h') \<rparr>)
           | (h', None) \<Rightarrow> (Inr (), s\<lparr> objectsById := (objectsById s)(iid \<mapsto> h') \<rparr>))
      | None \<Rightarrow>
          (let ref = nextReference s;
               handle = \<lparr> hostInstanceId = iid, weakReference = ref, strongReference = Some obj \<rparr>
           in (Inr (), s\<lparr> nextReference := Suc ref,
                           referents := (referents s)(ref \<mapsto> obj),
                           referenceInstanceId := (referenceInstanceId s)(ref \<mapsto> iid),
                           objectsById := (objectsById s)(iid \<mapsto> handle) \<rparr>)))"

definition JavaObjectStore_getObject :: "string \<Rightarrow> hostStore \<Rightarrow> nat option" where
  "JavaObjectStore_getObject iid s =
     (case objectsById s iid of None \<Rightarrow> None | Some h \<Rightarrow> getReferent s h)"

definition JavaObjectStore_release :: "string \<Rightarrow> hostStore \<Rightarrow> (error + unit) \<times> hostStore" where
  "JavaObjectStore_release iid s =
     (case objectsById s iid of
        None \<Rightarrow> (Inl NullPointerException, s)
      | Some h \<Rightarrow> (Inr (), s\<lparr> objectsById := (objectsById s)(iid \<mapsto> ObjectHandle_release h) \<rparr>))"

definition JavaObjectStore_retain :: "string \<Rightarrow> hostStore \<Rightarrow> (error + unit) \<times> hostStore" where
  "JavaObjectStore_retain iid s =
     (case objectsById s iid of
        None \<Rightarrow> (Inl NullPointerException, s)
      | Some h \<Rightarrow>
          (case ObjectHandle_retain s h of
             (h', Some e) \<Rightarrow> (Inl e, s\<lparr> objectsById := (objectsById s)(iid \<mapsto> h') \<rparr>)
           | (h', None) \<Rightarrow> (Inr (), s\<lparr> objectsById := (objectsById s)(iid \<mapsto> h') \<rparr>)))"

text \<open>
  The host's collector reclaims the referent of a weak reference that still has one and
  whose handle holds no strong reference: it clears the reference and enqueues it.
\<close>

definition hostCollect :: "nat \<Rightarrow> hostStore \<Rightarrow> hostStore" where
  "hostCollect ref s =
     (if referents s ref \<noteq> None
         \<and> (case referenceInstanceId s ref of
               None \<Rightarrow> True
             | Some iid \<Rightarrow>
                 (case objectsById s iid of None \<Rightarrow> True | Some h \<Rightarrow> strongReference h = None))
      then s\<lparr> referents := (referents s)(ref := None),
              referenceQueue := referenceQueue s @ [ref] \<rparr>
      else s)"

datatype hostOperation =
    HostRegister nat string
  | HostRelease string
  | HostRetain string
  | HostGetDroppedReferences
  | HostCollect nat

fun hostExec :: "hostOperation \<Rightarrow> hostStore \<Rightarrow> hostStore" where
  "hostExec (HostRegister obj iid) s = snd (JavaObjectStore_register obj iid s)"
| "hostExec (HostRelease iid) s = snd (JavaObjectStore_release iid s)"
| "hostExec (HostRetain iid) s = snd (JavaObjectStore_retain iid s)"
| "hostExec HostGetDroppedReferences s = snd (JavaObjectStore_getDroppedReferences s)"
| "hostExec (HostCollect ref) s = hostCollect ref s"

fun hostRun :: "hostOperation list \<Rightarrow> hostStore \<Rightarrow> hostStore" where
  "hostRun [] s = s"
| "hostRun (x # xs) s = hostRun xs (hostExec x s)"

text \<open>The instance IDs that the calls of \<^verbatim>\<open>getDroppedReferences\<close> in a run return.\<close>

fun reported :: "hostOperation list \<Rightarrow> hostStore \<Rightarrow> string set" where
  "reported [] s = {}"
| "reported (HostGetDroppedReferences # xs) s =
     fst (JavaObjectStore_getDroppedReferences s)
       \<union> reported xs (hostExec HostGetDroppedReferences s)"
| "reported (x # xs) s = reported xs (hostExec x s)"

fun registers :: "string \<Rightarrow> hostOperation \<Rightarrow> bool" where
  "registers iid (HostRegister obj iid') = (iid' = iid)"
| "registers iid x = False"

text \<open>
  What the table keeps true: an instance ID that a reference maps to has a handle, and
  the handle's weak reference is that reference.
\<close>

definition hostInv :: "hostStore \<Rightarrow> bool" where
  "hostInv s =
     (\<forall>ref iid. referenceInstanceId s ref = Some iid \<longrightarrow>
        (\<exists>h. objectsById s iid = Some h \<and> weakReference h = ref))"

text \<open>
  Two runs of the host's table. In the first an object is registered as \<^verbatim>\<open>A@10000\<close>,
  released and reclaimed. The second goes on: the table is drained, another object is
  registered under the same instance ID, released and reclaimed.
\<close>

definition exampleHostOps :: "hostOperation list" where
  "exampleHostOps = [HostRegister 7 ''A@10000'', HostRelease ''A@10000'', HostCollect 0]"

definition exampleHostStore :: hostStore where
  "exampleHostStore = hostRun exampleHostOps JavaObjectStore_new"

definition exampleHostOps2 :: "hostOperation list" where
  "exampleHostOps2 =
     exampleHostOps @ [HostGetDroppedReferences, HostRegister 8 ''A@10000'',
                       HostRelease ''A@10000'', HostCollect (Suc 0)]"

definition exampleHostStore2 :: hostStore where
  "exampleHostStore2 = hostRun exampleHostOps2 JavaObjectStore_new"

section \<open>Numbers up to \<open>2^53\<close>\<close>

lemma expo_small: "n < 2 ^ 53 \<Longrightarrow> expo n = 0"
  by (simp add: expo.simps)

lemma roundNat_small: "n \<le> 2 ^ 53 \<Longrightarrow> roundNat n = n"
proof (cases "n < 2 ^ 53")
  case True
  then show ?thesis by (simp add: roundNat_def expo_small)
next
  case False
  assume "n \<le> 2 ^ 53"
  with False have n: "n = 9007199254740992" by simp
  have e: "expo 9007199254740992 = Suc 0"
    by (simp add: expo.simps)
  show ?thesis unfolding n by (simp add: roundNat_def e)
qed

lemma toNumber_small: "0 \<le> k \<Longrightarrow> k \<le> 2 ^ 53 \<Longrightarrow> toNumber k = Num k"
proof -
  assume k: "0 \<le> k" "k \<le> 2 ^ 53"
  then have n: "nat \<bar>k\<bar> \<le> 2 ^ 53" by (simp add: nat_le_iff)
  have "(2::int) ^ 53 < 2 ^ 1024" by (rule power_strict_increasing) simp_all
  with k have "\<not> (2::int) ^ 1024 \<le> k" by linarith
  with k show ?thesis
    unfolding toNumber_def roundNat_small [OF n] Let_def by simp
qed

lemma numPlus_small:
  "0 \<le> a \<Longrightarrow> 0 \<le> b \<Longrightarrow> a + b \<le> 2 ^ 53 \<Longrightarrow> numPlus (Num a) b = Num (a + b)"
  by (simp add: numPlus.simps toNumber_small)

lemma numToString_small:
  "0 \<le> k \<Longrightarrow> k \<le> 2 ^ 53 \<Longrightarrow> numToString (Num k) = digits10 (nat k)"
  by (simp add: numToString.simps natToString_def nat_le_iff)

text \<open>\<open>2^53 + 1\<close> lies half way between two doubles; the even one is \<open>2^53\<close>.\<close>

lemma roundNat_tie: "roundNat 9007199254740993 = 9007199254740992"
proof -
  have e: "expo 9007199254740993 = Suc 0"
    by (simp add: expo.simps)
  show ?thesis by (simp add: roundNat_def e)
qed

lemma numPlus_tie: "numPlus (Num 9007199254740992) 1 = Num 9007199254740992"
proof -
  have "(9007199254740992::int) < 2 ^ 1024"
    using power_strict_increasing [of 53 1024 "2::int"] by simp
  then show ?thesis
    by (simp add: numPlus.simps toNumber_def roundNat_tie Let_def)
qed

lemma numPlus_10000: "numPlus (Num 10000) 1 = Num 10001"
  using numPlus_small [of 10000 1] by simp

lemma numPlus_10001: "numPlus (Num 10001) 1 = Num 10002"
  using numPlus_small [of 10001 1] by simp

section \<open>Evaluating the concrete store\<close>

lemma numToString_10000: "numToString (Num 10000) = ''10000''"
  by (simp add: numToString.simps natToString_def digits10.simps digit_char_def)

lemma exampleHandle_new:
  "ObjectHandle_new 10 exampleTypes Sequence_default ''X'' (PlainObject 0) [''IA''] =
     (Inr \<lparr> classFQN = ''X'', instanceId = ''X@10000'', object = PlainObject 0,
            proxyReference = None, declaredInterfaces = [''IA''],
            providedInterfaces = [] \<rparr>,
      \<lparr> stride = 1, nextValue = Num 10001 \<rparr>)"
  by (simp add: ObjectHandle_new_def Sequence_next_def Sequence_default_def numToString_10000 numPlus_10000
      InterfaceCollection_new_def EMPTY_OBJECT_FQN_def exampleTypes_def isClassType_def
      isInterfaceType_def Set_of_def Set_add_def deleteProvided_def Set_delete_def numeral_nat)

lemma exampleStore_eq:
  "exampleStore =
     \<lparr> resolveType = exampleTypes,
       idSequence = \<lparr> stride = 1, nextValue = Num 10001 \<rparr>,
       handles = [''X@10000'' \<mapsto> 0],
       instanceInfo = [PlainObject 0 \<mapsto> 0],
       finalizationRegistry = [(0, 0)],
       finalized = [],
       emitted = [Managed ''X@10000''],
       handleHeap = (\<lambda>a. noHandle)(0 :=
         \<lparr> classFQN = ''X'', instanceId = ''X@10000'', object = PlainObject 0,
           proxyReference = Some 0, declaredInterfaces = [''IA''],
           providedInterfaces = [] \<rparr>),
       nextHandle = Suc 0, nextProxy = Suc 0, liveProxies = {0} \<rparr>"
  by (simp add: exampleStore_def ObjectStore_register_def exampleOptions_def ObjectStore_new_def
      tryGetHandle_def realObject_def exampleHandle_new emitManaged_def emit_def
      ObjectHandle_proxy_def mintProxy_def Let_def)

section \<open>Facts about single steps\<close>

lemma handles_mintProxy [simp]: "handles (snd (mintProxy a s)) = handles s"
  by (simp add: mintProxy_def Let_def)

lemma handles_proxy [simp]: "handles (snd (ObjectHandle_proxy a s)) = handles s"
  by (simp add: ObjectHandle_proxy_def split: option.splits)

lemma handles_emit [simp]: "handles (emit ev s) = handles s"
  by (simp add: emit_def)

lemma handles_onProxyFinalized [simp]: "handles (ObjectStore_onProxyFinalized a s) = handles s"
  by (simp add: ObjectStore_onProxyFinalized_def Let_def)

lemma handles_runFinalizer [simp]: "handles (runFinalizer p a s) = handles s"
  by (simp add: runFinalizer_def)

lemma handles_collectProxy [simp]: "handles (collectProxy p s) = handles s"
  by (simp add: collectProxy_def)

lemma finalize_removes_handle: "handles (ObjectStore_finalize iid s) iid = None"
  by (simp add: ObjectStore_finalize_def)

lemma handles_finalizedInstanceIds [simp]:
  "handles (snd (ObjectStore_finalizedInstanceIds s)) = handles s"
  by (simp add: ObjectStore_finalizedInstanceIds_def)

lemma handles_dereference [simp]: "handles (snd (ObjectStore_dereference iid s)) = handles s"
  by (simp add: ObjectStore_dereference_def Let_def case_prod_unfold split: sum.splits)

lemma handles_delete_other:
  "iid' \<noteq> iid \<Longrightarrow> handles (snd (ObjectStore_delete iid' s)) iid = handles s iid"
  by (simp add: ObjectStore_delete_def)

lemma handles_register_keeps:
  "handles s iid \<noteq> None \<Longrightarrow> handles (snd (ObjectStore_register d opts s)) iid \<noteq> None"
  by (simp add: ObjectStore_register_def emitManaged_def Let_def case_prod_unfold
      split: option.splits sum.splits prod.splits)

lemma handles_exec_keeps:
  "handles s iid \<noteq> None \<Longrightarrow> x \<noteq> Delete iid \<Longrightarrow> handles (exec d x s) iid \<noteq> None"
  by (cases x) (simp_all add: handles_register_keeps handles_delete_other)

lemma handles_run_keeps:
  "handles s iid \<noteq> None \<Longrightarrow> Delete iid \<notin> set xs \<Longrightarrow> handles (run d xs s) iid \<noteq> None"
proof (induction xs arbitrary: s)
  case Nil
  then show ?case by simp
next
  case (Cons x xs)
  from Cons.prems have "handles (exec d x s) iid \<noteq> None"
    by (intro handles_exec_keeps) auto
  with Cons show ?case by simp
qed

lemma dereference_known:
  "handles s iid \<noteq> None \<Longrightarrow> \<exists>r s'. ObjectStore_dereference iid s = (Inr r, s')"
  by (auto simp: ObjectStore_dereference_def getHandle_def Let_def case_prod_unfold)

lemma delete_collected_example:
  "ObjectStore_delete ''X@10000'' (collectProxy 0 exampleStore) =
     (Inr (), (collectProxy 0 exampleStore)
        \<lparr> handles := Map.empty, emitted := [Managed ''X@10000'', Unmanaged ''X@10000''] \<rparr>)"
  by (simp add: exampleStore_eq ObjectStore_delete_def collectProxy_def hasProxy_def emit_def)

lemma set_Set_add [simp]: "set (Set_add x xs) = insert x (set xs)"
  by (auto simp: Set_add_def)

lemma distinct_Set_add [simp]: "distinct xs \<Longrightarrow> distinct (Set_add x xs)"
  by (simp add: Set_add_def)

lemma finalized_mintProxy [simp]: "finalized (snd (mintProxy a s)) = finalized s"
  by (simp add: mintProxy_def Let_def)

lemma finalized_proxy [simp]: "finalized (snd (ObjectHandle_proxy a s)) = finalized s"
  by (simp add: ObjectHandle_proxy_def split: option.splits)

lemma finalized_register [simp]: "finalized (snd (ObjectStore_register d opts s)) = finalized s"
  by (simp add: ObjectStore_register_def emitManaged_def emit_def Let_def case_prod_unfold
      split: option.splits sum.splits prod.splits)

lemma finalized_dereference [simp]: "finalized (snd (ObjectStore_dereference iid s)) = finalized s"
  by (simp add: ObjectStore_dereference_def Let_def case_prod_unfold split: sum.splits)

lemma finalized_delete [simp]: "finalized (snd (ObjectStore_delete iid s)) = finalized s"
  by (simp add: ObjectStore_delete_def emit_def)

lemma finalized_collectProxy [simp]: "finalized (collectProxy p s) = finalized s"
  by (simp add: collectProxy_def)

lemma finalized_runFinalizer:
  "finalized (runFinalizer p a s) =
     (if (p, a) \<in> set (finalizationRegistry s) \<and> p \<notin> liveProxies s
      then Set_add (instanceId (handleHeap s a)) (finalized s) else finalized s)"
  by (simp add: runFinalizer_def ObjectStore_onProxyFinalized_def emit_def Let_def)

lemma finalized_run:
  "FinalizedInstanceIds \<notin> set xs \<Longrightarrow>
     set (finalized (run d xs s)) = set (finalized s) \<union> set (callbackIds d xs s)"
proof (induction xs arbitrary: s)
  case Nil
  then show ?case by simp
next
  case (Cons x xs)
  then have ih: "set (finalized (run d xs (exec d x s))) =
      set (finalized (exec d x s)) \<union> set (callbackIds d xs (exec d x s))"
    by simp
  from Cons.prems have "x \<noteq> FinalizedInstanceIds" by auto
  then show ?case
    using ih by (cases x) (auto simp: finalized_runFinalizer)
qed

lemma distinct_finalized_exec:
  "distinct (finalized s) \<Longrightarrow> distinct (finalized (exec d x s))"
  by (cases x) (simp_all add: finalized_runFinalizer ObjectStore_finalizedInstanceIds_def)

lemma distinct_finalized_run:
  "distinct (finalized s) \<Longrightarrow> distinct (finalized (run d xs s))"
  by (induction xs arbitrary: s) (simp_all add: distinct_finalized_exec)

lemma hasProxy_after_mint:
  "hasProxy (snd (mintProxy a s)) (handleHeap (snd (mintProxy a s)) a)"
  by (simp add: mintProxy_def Let_def hasProxy_def)

lemma ObjectHandle_proxy_cases:
  "ObjectHandle_proxy a s =
     (if hasProxy s (handleHeap s a)
      then (HandleProxy (the (proxyReference (handleHeap s a))) (object (handleHeap s a)), s)
      else mintProxy a s)"
  by (simp add: ObjectHandle_proxy_def hasProxy_def split: option.splits)

lemma hasProxy_after_proxy:
  "hasProxy (snd (ObjectHandle_proxy a s)) (handleHeap (snd (ObjectHandle_proxy a s)) a)"
  by (simp add: ObjectHandle_proxy_cases hasProxy_after_mint)

lemma dereference_live:
  assumes "ObjectStore_dereference iid s = (Inr r, s1)"
  shows "liveProxyFor s1 iid"
proof -
  from assms obtain a where a: "handles s iid = Some a"
    by (auto simp: ObjectStore_dereference_def getHandle_def split: option.splits)
  with assms have s1: "s1 = snd (ObjectHandle_proxy a s)"
    by (auto simp: ObjectStore_dereference_def getHandle_def Let_def case_prod_unfold)
  show ?thesis
    using a by (simp add: liveProxyFor_def s1 hasProxy_after_proxy)
qed

lemma finalizedInstanceIds_result:
  "fst (ObjectStore_finalizedInstanceIds s) = filter (\<lambda>iid. \<not> liveProxyFor s iid) (finalized s)"
  by (simp add: ObjectStore_finalizedInstanceIds_def liveProxyFor_def)

lemma exampleRun_callbackIds:
  "callbackIds 10 [CollectProxy 0, RunFinalizer 0 0] exampleStore = [''X@10000'']"
  by (simp add: exampleStore_eq collectProxy_def)

lemma exampleRun_no_live_proxy:
  "\<not> liveProxyFor (run 10 [CollectProxy 0, RunFinalizer 0 0] exampleStore) ''X@10000''"
  by (simp add: exampleStore_eq collectProxy_def runFinalizer_def ObjectStore_onProxyFinalized_def
      emit_def liveProxyFor_def hasProxy_def Let_def)

lemma ObjectHandle_new_sequence:
  "snd (ObjectHandle_new d r sq cls inst fqns) = snd (Sequence_next sq)"
  by (simp add: ObjectHandle_new_def Let_def case_prod_unfold split: option.splits prod.splits)

lemma ObjectHandle_new_fields:
  assumes "ObjectHandle_new d r sq cls inst fqns = (Inr h, sq')"
  shows "classFQN h = cls" and "instanceId h = cls @ ''@'' @ numToString (nextValue sq)"
    and "object h = inst" and "proxyReference h = None"
    and "sq' = sq\<lparr> nextValue := numPlus (nextValue sq) (stride sq) \<rparr>"
  using assms
  by (auto simp: ObjectHandle_new_def Sequence_next_def Let_def split: option.splits prod.splits)

lemma getOwnPropertyDescriptor_realObjectSymbol_eq:
  "getOwnPropertyDescriptor_realObjectSymbol x =
     (case x of HandleProxy p t \<Rightarrow> Inl TypeError | _ \<Rightarrow> Inr None)"
  by (induction x)
    (simp_all add: Proxy_GetOwnProperty_def validatePropertyDescriptor_def
      RealObjectProxyHandler_getOwnPropertyDescriptor_def split: jsobject.splits)

lemma realObject_eq:
  "realObject x = (case x of HandleProxy p t \<Rightarrow> Inl TypeError | _ \<Rightarrow> Inr x)"
  by (cases x) (simp_all add: realObject_def getOwnPropertyDescriptor_realObjectSymbol_eq)

lemma register_new_state:
  assumes "o_instance opts = Some x"
    and "tryGetHandle s x = Inr None"
    and "ObjectHandle_new d (resolveType s) (idSequence s) (o_classFQN opts) x
           (o_interfaceFQNs opts) = (Inr h, sq)"
  shows "ObjectStore_register d opts s =
           (Inr \<lparr> m_instance = HandleProxy (nextProxy s) x, m_objRef = ObjectHandle_objRef h \<rparr>,
            s\<lparr> idSequence := (idSequence s)\<lparr> nextValue := numPlus (nextValue (idSequence s)) (stride (idSequence s)) \<rparr>,
               handles := (handles s)(instanceId h \<mapsto> nextHandle s),
               instanceInfo := (instanceInfo s)(x \<mapsto> nextHandle s),
               emitted := emitted s @ [Managed (instanceId h)],
               handleHeap := (handleHeap s)(nextHandle s := h\<lparr> proxyReference := Some (nextProxy s) \<rparr>),
               nextHandle := Suc (nextHandle s),
               nextProxy := Suc (nextProxy s),
               liveProxies := insert (nextProxy s) (liveProxies s),
               finalizationRegistry := finalizationRegistry s @ [(nextProxy s, nextHandle s)] \<rparr>)
         \<and> instanceId h = o_classFQN opts @ ''@'' @ numToString (nextValue (idSequence s))
         \<and> realObject x = Inr x
         \<and> hasProxy (snd (ObjectStore_register d opts s))
              (handleHeap (snd (ObjectStore_register d opts s)) (nextHandle s))"
proof -
  note f = ObjectHandle_new_fields [OF assms(3)]
  have reg: "ObjectStore_register d opts s =
           (Inr \<lparr> m_instance = HandleProxy (nextProxy s) x, m_objRef = ObjectHandle_objRef h \<rparr>,
            s\<lparr> idSequence := (idSequence s)\<lparr> nextValue := numPlus (nextValue (idSequence s)) (stride (idSequence s)) \<rparr>,
               handles := (handles s)(instanceId h \<mapsto> nextHandle s),
               instanceInfo := (instanceInfo s)(x \<mapsto> nextHandle s),
               emitted := emitted s @ [Managed (instanceId h)],
               handleHeap := (handleHeap s)(nextHandle s := h\<lparr> proxyReference := Some (nextProxy s) \<rparr>),
               nextHandle := Suc (nextHandle s),
               nextProxy := Suc (nextProxy s),
               liveProxies := insert (nextProxy s) (liveProxies s),
               finalizationRegistry := finalizationRegistry s @ [(nextProxy s, nextHandle s)] \<rparr>)"
    using assms f
    by (simp add: ObjectStore_register_def emitManaged_def emit_def ObjectHandle_proxy_def
        mintProxy_def Let_def ObjectHandle_objRef_def ObjectHandle_interfaces_def)
  have ro: "realObject x = Inr x"
    using assms(2)
    by (cases x) (simp_all add: tryGetHandle_def realObject_eq)
  show ?thesis
    using reg ro f(2) by (simp add: hasProxy_def)
qed


subsection \<open>Instance IDs as strings\<close>

lemma digit_char_inj: "i < 10 \<Longrightarrow> j < 10 \<Longrightarrow> digit_char i = digit_char j \<Longrightarrow> i = j"
proof -
  assume a: "i < 10" "j < 10" "digit_char i = digit_char j"
  have d: "distinct ''0123456789''" by simp
  have "i < length ''0123456789''" "j < length ''0123456789''" using a by simp_all
  with d a(3) show "i = j"
    unfolding digit_char_def by (simp only: nth_eq_iff_index_eq)
qed

lemma digit_char_not_at: "i < 10 \<Longrightarrow> digit_char i \<noteq> CHR ''@''"
proof -
  assume "i < 10"
  then have "i < length ''0123456789''" by simp
  then have "''0123456789'' ! i \<in> set ''0123456789''" by (rule nth_mem)
  then show ?thesis unfolding digit_char_def by auto
qed

lemma digits10_not_empty: "digits10 n \<noteq> []"
  by (subst digits10.simps) simp

lemma digits10_no_at: "CHR ''@'' \<notin> set (digits10 n)"
proof (induction n rule: digits10.induct)
  case (1 n)
  show ?case
  proof (cases "n < 10")
    case True
    then show ?thesis
      using digit_char_not_at [of n] by (subst digits10.simps) auto
  next
    case False
    then have "CHR ''@'' \<notin> set (digits10 (n div 10))" using "1" by simp
    moreover have "digit_char (n mod 10) \<noteq> CHR ''@''" by (rule digit_char_not_at) simp
    ultimately show ?thesis
      using False by (subst digits10.simps) auto
  qed
qed

lemma digits10_inj: "digits10 m = digits10 n \<Longrightarrow> m = n"
proof (induction m arbitrary: n rule: digits10.induct)
  case (1 m)
  show ?case
  proof (cases "m < 10")
    case m: True
    show ?thesis
    proof (cases "n < 10")
      case True
      with m "1.prems" show ?thesis
        by (simp add: digits10.simps [of m] digits10.simps [of n] digit_char_inj)
    next
      case False
      with m "1.prems" show ?thesis
        using digits10_not_empty [of "n div 10"]
        by (simp add: digits10.simps [of m] digits10.simps [of n])
    qed
  next
    case m: False
    show ?thesis
    proof (cases "n < 10")
      case True
      with m "1.prems" show ?thesis
        using digits10_not_empty [of "m div 10"]
        by (simp add: digits10.simps [of m] digits10.simps [of n])
    next
      case False
      with m "1.prems" have e: "digits10 (m div 10) = digits10 (n div 10)"
        and c: "digit_char (m mod 10) = digit_char (n mod 10)"
        by (simp_all add: digits10.simps [of m] digits10.simps [of n])
      from "1.IH" [OF m e] have "m div 10 = n div 10" .
      moreover from c have "m mod 10 = n mod 10"
        by (intro digit_char_inj) simp_all
      ultimately show ?thesis
        by (metis div_mult_mod_eq)
    qed
  qed
qed

lemma at_split_unique:
  "a @ CHR ''@'' # b = c @ CHR ''@'' # e \<Longrightarrow> CHR ''@'' \<notin> set b \<Longrightarrow> CHR ''@'' \<notin> set e
     \<Longrightarrow> a = c \<and> b = e"
proof (induction a arbitrary: c)
  case Nil
  then show ?case by (cases c) auto
next
  case (Cons x a)
  then show ?case by (cases c) auto
qed

lemma instanceId_inj:
  assumes "cls1 @ ''@'' @ numToString (Num n1) = cls2 @ ''@'' @ numToString (Num n2)"
    and "0 \<le> n1" and "n1 \<le> 2 ^ 53" and "0 \<le> n2" and "n2 \<le> 2 ^ 53"
  shows "cls1 = cls2 \<and> n1 = n2"
proof -
  from assms have e: "cls1 @ CHR ''@'' # digits10 (nat n1) = cls2 @ CHR ''@'' # digits10 (nat n2)"
    by (simp add: numToString_small)
  from at_split_unique [OF e digits10_no_at digits10_no_at]
  have c: "cls1 = cls2" and "digits10 (nat n1) = digits10 (nat n2)" by simp_all
  then have "nat n1 = nat n2" by (intro digits10_inj)
  with assms(2,4) have "n1 = n2" by arith
  with c show ?thesis by simp
qed

subsection \<open>The sequence along a run\<close>

lemma Sequence_nth_call_eq:
  assumes "nextValue q = Num a" and "0 \<le> a" and "0 \<le> stride q"
    and "a + int n * stride q \<le> 2 ^ 53"
  shows "Sequence_nth_call n q = Num (a + int n * stride q)"
  using assms
proof (induction n arbitrary: q a)
  case 0
  then show ?case by (simp add: Sequence_next_def)
next
  case (Suc n)
  let ?q = "snd (Sequence_next q)"
  have le: "a + stride q \<le> a + int (Suc n) * stride q"
    using Suc.prems(3) by (simp add: algebra_simps mult_nonneg_nonneg)
  with Suc.prems have nv: "nextValue ?q = Num (a + stride q)"
    by (simp add: Sequence_next_def numPlus_small)
  have st: "stride ?q = stride q" by (simp add: Sequence_next_def)
  have "Sequence_nth_call n ?q = Num ((a + stride q) + int n * stride ?q)"
  proof (rule Suc.IH [OF nv])
    show "0 \<le> a + stride q" using Suc.prems by simp
    show "0 \<le> stride ?q" using Suc.prems st by simp
    show "a + stride q + int n * stride ?q \<le> 2 ^ 53"
      using Suc.prems(4) st by (simp add: algebra_simps)
  qed
  then show ?case by (simp add: st algebra_simps)
qed

lemma idSequence_mintProxy [simp]: "idSequence (snd (mintProxy a s)) = idSequence s"
  by (simp add: mintProxy_def Let_def)

lemma idSequence_proxy [simp]: "idSequence (snd (ObjectHandle_proxy a s)) = idSequence s"
  by (simp add: ObjectHandle_proxy_def split: option.splits)

lemma idSequence_register:
  "idSequence (snd (ObjectStore_register d opts s)) = idSequence s
   \<or> idSequence (snd (ObjectStore_register d opts s)) = snd (Sequence_next (idSequence s))"
  using ObjectHandle_new_sequence
    [of d "resolveType s" "idSequence s" "o_classFQN opts" _ "o_interfaceFQNs opts"]
  by (auto simp: ObjectStore_register_def emitManaged_def emit_def Let_def case_prod_unfold
      split: option.splits sum.splits prod.splits)

lemma idSequence_exec:
  "idSequence (exec d x s) = idSequence s
   \<or> idSequence (exec d x s) = snd (Sequence_next (idSequence s))"
proof (cases x)
  case (Register opts)
  then show ?thesis using idSequence_register [of d opts s] by simp
qed (simp_all add: ObjectStore_dereference_def ObjectStore_delete_def emit_def getHandle_def
      ObjectStore_finalizedInstanceIds_def collectProxy_def runFinalizer_def
      ObjectStore_onProxyFinalized_def Let_def case_prod_unfold split: sum.splits option.splits)

lemma sequence_exec_small:
  assumes "nextValue (idSequence s) = Num a" and "0 \<le> a" and "0 < stride (idSequence s)"
    and "a + stride (idSequence s) \<le> 2 ^ 53"
  shows "stride (idSequence (exec d x s)) = stride (idSequence s)
         \<and> (nextValue (idSequence (exec d x s)) = Num a
            \<or> nextValue (idSequence (exec d x s)) = Num (a + stride (idSequence s)))"
  using idSequence_exec [of d x s] assms by (auto simp: Sequence_next_def numPlus_small)

lemma register_new_returns:
  assumes "o_instance opts = Some x" and "tryGetHandle s x = Inr None"
    and "fst (ObjectStore_register d opts s) = Inr m"
  shows "TOKEN_REF (m_objRef m) = o_classFQN opts @ ''@'' @ numToString (nextValue (idSequence s))
         \<and> idSequence (snd (ObjectStore_register d opts s)) = snd (Sequence_next (idSequence s))"
proof -
  obtain res sq where n: "ObjectHandle_new d (resolveType s) (idSequence s) (o_classFQN opts) x
           (o_interfaceFQNs opts) = (res, sq)"
    by (cases "ObjectHandle_new d (resolveType s) (idSequence s) (o_classFQN opts) x
           (o_interfaceFQNs opts)")
  show ?thesis
  proof (cases res)
    case (Inl e)
    with assms n show ?thesis by (simp add: ObjectStore_register_def)
  next
    case (Inr h)
    with n have n': "ObjectHandle_new d (resolveType s) (idSequence s) (o_classFQN opts) x
           (o_interfaceFQNs opts) = (Inr h, sq)" by simp
    from register_new_state [OF assms(1,2) n'] assms(3)
    show ?thesis by (auto simp: ObjectHandle_objRef_def Sequence_next_def Let_def)
  qed
qed

text \<open>
  As long as the sequence stays at most \<open>2^53\<close>, which it does when each of the
  operations to come may advance it once, the numbers of the new handles increase and
  their instance IDs differ.
\<close>

lemma newIds_facts:
  assumes "0 < stride (idSequence s)" and "nextValue (idSequence s) = Num a" and "0 \<le> a"
    and "a + int (length xs) * stride (idSequence s) \<le> 2 ^ 53"
  shows "sorted_wrt numLess (map snd (newIds d xs s))
         \<and> distinct (map fst (newIds d xs s))
         \<and> (\<forall>(iid, n) \<in> set (newIds d xs s).
               \<exists>k cls. n = Num k \<and> a \<le> k \<and> k \<le> 2 ^ 53 \<and> iid = cls @ ''@'' @ numToString n)"
  using assms
proof (induction xs arbitrary: s a)
  case Nil
  then show ?case by simp
next
  case (Cons x xs)
  let ?s' = "exec d x s"
  let ?t = "stride (idSequence s)"
  have ge: "0 \<le> int (length xs) * ?t" using Cons.prems(1) by simp
  from Cons.prems(4) have tot: "a + ?t + int (length xs) * ?t \<le> 2 ^ 53"
    by (simp add: algebra_simps)
  with ge have one: "a + ?t \<le> 2 ^ 53" by linarith
  from Cons.prems(1) one have a53: "a \<le> 2 ^ 53" by linarith
  from sequence_exec_small [OF Cons.prems(2,3,1) one, of d x]
  have st: "stride (idSequence ?s') = ?t"
    and nv: "nextValue (idSequence ?s') = Num a \<or> nextValue (idSequence ?s') = Num (a + ?t)"
    by simp_all
  then obtain a' where a': "nextValue (idSequence ?s') = Num a'" and aa: "a \<le> a'" "a' \<le> a + ?t"
    using Cons.prems(1) by auto
  have p1: "0 < stride (idSequence ?s')" using st Cons.prems(1) by simp
  have p3: "0 \<le> a'" using aa Cons.prems(3) by simp
  have "a' + int (length xs) * ?t \<le> a + ?t + int (length xs) * ?t" using aa by simp
  with tot st have p4: "a' + int (length xs) * stride (idSequence ?s') \<le> 2 ^ 53" by simp
  note ih = Cons.IH [OF p1 a' p3 p4]
  have rest: "\<forall>(iid, n) \<in> set (newIds d xs ?s').
               \<exists>k cls. n = Num k \<and> a \<le> k \<and> k \<le> 2 ^ 53 \<and> iid = cls @ ''@'' @ numToString n"
    using ih aa(1) by fastforce
  show ?case
  proof (cases "\<exists>opts y m. x = Register opts \<and> o_instance opts = Some y
                  \<and> tryGetHandle s y = Inr None \<and> fst (ObjectStore_register d opts s) = Inr m")
    case False
    then have "newIds d (x # xs) s = newIds d xs ?s'"
      by (cases x) (auto split: option.splits sum.splits)
    with ih rest show ?thesis by simp
  next
    case True
    then obtain opts y m where x: "x = Register opts" and y: "o_instance opts = Some y"
      and t: "tryGetHandle s y = Inr None" and m: "fst (ObjectStore_register d opts s) = Inr m"
      by blast
    from x y t m Cons.prems(2)
    have e: "newIds d (x # xs) s = (TOKEN_REF (m_objRef m), Num a) # newIds d xs ?s'"
      by simp
    from register_new_returns [OF y t m] x Cons.prems(2)
    have ref: "TOKEN_REF (m_objRef m) = o_classFQN opts @ ''@'' @ numToString (Num a)"
      and adv: "idSequence ?s' = snd (Sequence_next (idSequence s))"
      by simp_all
    from adv Cons.prems(2,3,1) one have "nextValue (idSequence ?s') = Num (a + ?t)"
      by (simp add: Sequence_next_def numPlus_small)
    with a' have a'eq: "a' = a + ?t" by simp
    have later: "\<forall>(iid, n) \<in> set (newIds d xs ?s'). numLess (Num a) n \<and> iid \<noteq> TOKEN_REF (m_objRef m)"
    proof (clarify)
      fix iid n assume mem: "(iid, n) \<in> set (newIds d xs ?s')"
      with ih obtain k cls where n: "n = Num k" and k: "a' \<le> k" "k \<le> 2 ^ 53"
        and iid: "iid = cls @ ''@'' @ numToString n" by fastforce
      from k a'eq Cons.prems(1) have lt: "a < k" by simp
      have "iid \<noteq> TOKEN_REF (m_objRef m)"
      proof
        assume "iid = TOKEN_REF (m_objRef m)"
        with iid ref n have
          "cls @ ''@'' @ numToString (Num k) = o_classFQN opts @ ''@'' @ numToString (Num a)" by simp
        from instanceId_inj [OF this _ k(2) Cons.prems(3) a53] lt Cons.prems(3)
        show False by simp
      qed
      with lt n show "numLess (Num a) n \<and> iid \<noteq> TOKEN_REF (m_objRef m)" by simp
    qed
    have s1: "sorted_wrt numLess (map snd (newIds d (x # xs) s))"
      using e ih later by fastforce
    have s2: "distinct (map fst (newIds d (x # xs) s))"
      using e ih later by fastforce
    have s3: "\<forall>(iid, n) \<in> set (newIds d (x # xs) s).
               \<exists>k cls. n = Num k \<and> a \<le> k \<and> k \<le> 2 ^ 53 \<and> iid = cls @ ''@'' @ numToString n"
      using e rest ref a53 by auto
    from s1 s2 s3 show ?thesis by blast
  qed
qed

subsection \<open>A run with a deletion between two registrations\<close>

lemma numToString_10001: "numToString (Num 10001) = ''10001''"
  by (simp add: numToString.simps natToString_def digits10.simps digit_char_def)

lemma exampleStore_register:
  "ObjectStore_register 10 exampleOptions (ObjectStore_new exampleTypes) =
     (Inr \<lparr> m_instance = HandleProxy 0 (PlainObject 0),
            m_objRef = \<lparr> TOKEN_REF = ''X@10000'', TOKEN_INTERFACES = Some [''IA''] \<rparr> \<rparr>,
      exampleStore)"
  by (simp add: exampleStore_eq ObjectStore_register_def exampleOptions_def ObjectStore_new_def
      tryGetHandle_def realObject_def exampleHandle_new emitManaged_def emit_def
      ObjectHandle_proxy_def mintProxy_def Let_def ObjectHandle_objRef_def
      ObjectHandle_interfaces_def)

lemma exampleHandle2_new:
  "ObjectHandle_new 10 exampleTypes \<lparr> stride = 1, nextValue = Num 10001 \<rparr> ''X'' (PlainObject 2) [] =
     (Inr \<lparr> classFQN = ''X'', instanceId = ''X@10001'', object = PlainObject 2,
            proxyReference = None, declaredInterfaces = [],
            providedInterfaces = [] \<rparr>,
      \<lparr> stride = 1, nextValue = Num 10002 \<rparr>)"
  apply (simp add: ObjectHandle_new_def Sequence_next_def numToString_10001 numPlus_10001)
  apply (simp add: InterfaceCollection_new_def EMPTY_OBJECT_FQN_def exampleTypes_def
      isClassType_def isInterfaceType_def Set_of_def deleteProvided_def numeral_nat)
  done

lemma exampleRun_newIds:
  "newIds 10 [Register exampleOptions, CollectProxy 0, Delete ''X@10000'', Register exampleOptions2]
     (ObjectStore_new exampleTypes) = [(''X@10000'', Num 10000), (''X@10001'', Num 10001)]"
proof -
  have a: "tryGetHandle (ObjectStore_new exampleTypes) (PlainObject 0) = Inr None"
    by (simp add: tryGetHandle_def realObject_def ObjectStore_new_def)
  let ?s3 = "snd (ObjectStore_delete ''X@10000'' (collectProxy 0 exampleStore))"
  have s3: "?s3 = (collectProxy 0 exampleStore)
        \<lparr> handles := Map.empty, emitted := [Managed ''X@10000'', Unmanaged ''X@10000''] \<rparr>"
    by (simp add: delete_collected_example)
  have b: "tryGetHandle ?s3 (PlainObject 2) = Inr None"
    unfolding s3 by (simp add: tryGetHandle_def realObject_def exampleStore_eq collectProxy_def)
  have n: "ObjectHandle_new 10 (resolveType ?s3) (idSequence ?s3) (o_classFQN exampleOptions2)
             (PlainObject 2) (o_interfaceFQNs exampleOptions2) =
           (Inr \<lparr> classFQN = ''X'', instanceId = ''X@10001'', object = PlainObject 2,
            proxyReference = None, declaredInterfaces = [],
            providedInterfaces = [] \<rparr>, \<lparr> stride = 1, nextValue = Num 10002 \<rparr>)"
    unfolding s3 by (simp add: exampleStore_eq collectProxy_def exampleOptions2_def exampleHandle2_new)
  have o2: "o_instance exampleOptions2 = Some (PlainObject 2)"
    by (simp add: exampleOptions2_def)
  have c: "fst (ObjectStore_register 10 exampleOptions2 ?s3) =
        Inr \<lparr> m_instance = HandleProxy (nextProxy ?s3) (PlainObject 2),
              m_objRef = \<lparr> TOKEN_REF = ''X@10001'', TOKEN_INTERFACES = None \<rparr> \<rparr>"
    using register_new_state [OF o2 b n]
    by (simp add: ObjectHandle_objRef_def ObjectHandle_interfaces_def)
  have q: "nextValue (idSequence ?s3) = Num 10001"
    unfolding s3 by (simp add: exampleStore_eq collectProxy_def)
  have q0: "nextValue (idSequence (ObjectStore_new exampleTypes)) = Num 10000"
    by (simp add: ObjectStore_new_def Sequence_default_def)
  have o1: "o_instance exampleOptions = Some (PlainObject 0)"
    by (simp add: exampleOptions_def)
  show ?thesis
    by (simp add: o1 o2 a b c q q0 exampleStore_register)
qed

lemma first_id_of_new_store:
  assumes "fst (ObjectStore_register d opts (ObjectStore_new r)) = Inr m"
  shows "TOKEN_REF (m_objRef m) = o_classFQN opts @ ''@10000''"
proof -
  from assms obtain x where x: "o_instance opts = Some x"
    by (cases "o_instance opts") (auto simp: ObjectStore_register_def)
  have "tryGetHandle (ObjectStore_new r) x = Inr None"
    using assms x
    by (cases x) (auto simp: tryGetHandle_def realObject_eq ObjectStore_new_def
        ObjectStore_register_def)
  from register_new_returns [OF x this assms] show ?thesis
    by (simp add: ObjectStore_new_def Sequence_default_def numToString_10000)
qed

subsection \<open>The walk of the interface hierarchy\<close>

lemma grows_mono: "grows r V V' X \<Longrightarrow> X \<subseteq> Y \<Longrightarrow> grows r V V' Y"
  by (auto simp: grows_def)

lemma grows_trans:
  assumes "grows r V V1 X" and "grows r V1 V2 Y"
  shows "grows r V V2 (X \<union> Y)"
proof -
  from assms have a: "set V \<subseteq> set V1" "set V1 \<subseteq> set V2"
    and b: "\<forall>n \<in> set V1 - set V. parents r n \<subseteq> set V1"
    and c: "\<forall>n \<in> set V2 - set V1. parents r n \<subseteq> set V2"
    and d: "set V1 - set V \<subseteq> X" "set V2 - set V1 \<subseteq> Y"
    by (simp_all add: grows_def)
  have 1: "set V \<subseteq> set V2" using a by blast
  have 2: "\<forall>n \<in> set V2 - set V. parents r n \<subseteq> set V2"
  proof
    fix n assume n: "n \<in> set V2 - set V"
    show "parents r n \<subseteq> set V2"
    proof (cases "n \<in> set V1")
      case True
      with n b have "parents r n \<subseteq> set V1" by blast
      with a show ?thesis by blast
    next
      case False
      with n c show ?thesis by blast
    qed
  qed
  have 3: "set V2 - set V \<subseteq> X \<union> Y" using d by blast
  from 1 2 3 show ?thesis by (simp add: grows_def)
qed

lemma grows_add:
  assumes "grows r (Set_add p V) V2 X" and "parents r p \<subseteq> set V2"
  shows "grows r V V2 (insert p X)"
proof -
  have s: "set (Set_add p V) = insert p (set V)" by (auto simp: Set_add_def)
  from assms(1) have a: "insert p (set V) \<subseteq> set V2"
    and b: "\<forall>n \<in> set V2 - insert p (set V). parents r n \<subseteq> set V2"
    and d: "set V2 - insert p (set V) \<subseteq> X"
    by (simp_all add: grows_def s)
  have 1: "set V \<subseteq> set V2" using a by blast
  have 2: "\<forall>n \<in> set V2 - set V. parents r n \<subseteq> set V2"
  proof
    fix n assume n: "n \<in> set V2 - set V"
    show "parents r n \<subseteq> set V2"
    proof (cases "n = p")
      case True
      with assms(2) show ?thesis by simp
    next
      case False
      with n b show ?thesis by blast
    qed
  qed
  have 3: "set V2 - set V \<subseteq> insert p X" using d by blast
  from 1 2 3 show ?thesis by (simp add: grows_def)
qed

lemma parents_ancestors: "p \<in> parents r f \<Longrightarrow> (f, p) \<in> (extends r)\<^sup>+"
  by (auto simp: extends_def)

lemma walk_grows:
  "(\<forall>V'. addFromInterface d r f V = (V', None) \<longrightarrow>
       parents r f \<subseteq> set V' \<and> grows r V V' ((extends r)\<^sup>+ `` {f}))"
  "(\<forall>V'. addInterfaces d r ps V = (V', None) \<longrightarrow>
       set ps \<subseteq> set V' \<and> grows r V V' ((extends r)\<^sup>* `` set ps))"
proof (induction d r f V and d r ps V rule: addFromInterface_addInterfaces.induct)
  case (1 r fqn S)
  show ?case by simp
next
  case (2 d r fqn S)
  show ?case
  proof (intro allI impI)
    fix V' assume a: "addFromInterface (Suc d) r fqn S = (V', None)"
    show "parents r fqn \<subseteq> set V' \<and> grows r S V' ((extends r)\<^sup>+ `` {fqn})"
    proof (cases "interfaces (r fqn)")
      case None
      with a show ?thesis
        by (auto simp: Let_def parents_def grows_def split: if_splits)
    next
      case (Some ifaces)
      with a have i: "isInterfaceType (r fqn)" and w: "addInterfaces d r ifaces S = (V', None)"
        by (auto simp: Let_def split: if_splits)
      from "2.IH" [OF refl _ Some] i w
      have s: "set ifaces \<subseteq> set V'" and g: "grows r S V' ((extends r)\<^sup>* `` set ifaces)"
        by auto
      have sub: "(extends r)\<^sup>* `` set ifaces \<subseteq> (extends r)\<^sup>+ `` {fqn}"
      proof
        fix x assume "x \<in> (extends r)\<^sup>* `` set ifaces"
        then obtain p where p: "p \<in> set ifaces" and "(p, x) \<in> (extends r)\<^sup>*" by auto
        moreover from p Some have "(fqn, p) \<in> extends r" by (simp add: extends_def parents_def)
        ultimately show "x \<in> (extends r)\<^sup>+ `` {fqn}" by auto
      qed
      have "parents r fqn = set ifaces" using Some by (simp add: parents_def)
      with s grows_mono [OF g sub] show ?thesis by simp
    qed
  qed
next
  case (3 d r S)
  show ?case by (simp add: grows_def)
next
  case (4 d r iface rest S)
  show ?case
  proof (intro allI impI)
    fix V' assume a: "addInterfaces d r (iface # rest) S = (V', None)"
    show "set (iface # rest) \<subseteq> set V' \<and> grows r S V' ((extends r)\<^sup>* `` set (iface # rest))"
    proof (cases "iface \<in> set S")
      case True
      with a have "addInterfaces d r rest S = (V', None)" by simp
      with "4.IH"(1) [OF True] have "set rest \<subseteq> set V'"
        and "grows r S V' ((extends r)\<^sup>* `` set rest)" by auto
      with True show ?thesis by (auto simp: grows_def)
    next
      case False
      obtain V2 e where w: "addFromInterface d r iface (Set_add iface S) = (V2, e)"
        by (cases "addFromInterface d r iface (Set_add iface S)")
      with a False have e: "e = None" and w2: "addInterfaces d r rest V2 = (V', None)"
        by (auto split: option.splits)
      from "4.IH"(2) [OF False] w e
      have g1: "grows r (Set_add iface S) V2 ((extends r)\<^sup>+ `` {iface})"
        and p1: "parents r iface \<subseteq> set V2" by auto
      from "4.IH"(3) [OF False w [symmetric, unfolded e] refl] w2
      have s2: "set rest \<subseteq> set V'" and g2: "grows r V2 V' ((extends r)\<^sup>* `` set rest)"
        by auto
      have sub: "insert iface ((extends r)\<^sup>+ `` {iface}) \<union> (extends r)\<^sup>* `` set rest
                   \<subseteq> (extends r)\<^sup>* `` set (iface # rest)"
        by auto
      from grows_mono [OF grows_trans [OF grows_add [OF g1 p1] g2] sub]
      have g: "grows r S V' ((extends r)\<^sup>* `` set (iface # rest))" .
      from g1 g2 have "iface \<in> set V'"
        by (auto simp: grows_def Set_add_def split: if_splits)
      with s2 g show ?thesis by simp
    qed
  qed
qed

lemma closed_grows:
  assumes "closed r (set V)" and "grows r V V' X"
  shows "closed r (set V')"
  unfolding closed_def
proof
  fix n assume n: "n \<in> set V'"
  show "parents r n \<subseteq> set V'"
  proof (cases "n \<in> set V")
    case True
    with assms show ?thesis by (auto simp: closed_def grows_def)
  next
    case False
    with n assms(2) show ?thesis by (auto simp: grows_def)
  qed
qed

lemma closed_rtrancl:
  assumes "closed r W" and "(a, b) \<in> (extends r)\<^sup>*" and "a \<in> W"
  shows "b \<in> W"
  using assms(2,3)
proof (induction rule: rtrancl_induct)
  case base
  then show ?case by simp
next
  case (step y z)
  then have "y \<in> W" by simp
  with assms(1) step.hyps(2) show ?case
    by (auto simp: closed_def extends_def)
qed

lemma addInterfaces_closed:
  assumes "closed r (set V)" and "addInterfaces d r ps V = (V', None)"
  shows "closed r (set V')" and "set V' = set V \<union> (extends r)\<^sup>* `` set ps"
proof -
  from walk_grows(2) [of d r ps V] assms(2)
  have s: "set ps \<subseteq> set V'" and g: "grows r V V' ((extends r)\<^sup>* `` set ps)" by auto
  show c: "closed r (set V')" using closed_grows [OF assms(1) g] .
  have "(extends r)\<^sup>* `` set ps \<subseteq> set V'"
    using closed_rtrancl [OF c] s by blast
  with g show "set V' = set V \<union> (extends r)\<^sup>* `` set ps"
    by (auto simp: grows_def)
qed

lemma addFromInterface_closed:
  assumes "closed r (set V)" and "addFromInterface d r f V = (V', None)"
  shows "closed r (set V')" and "set V' = set V \<union> ancestors r {f}"
proof -
  from walk_grows(1) [of d r f V] assms(2)
  have s: "parents r f \<subseteq> set V'" and g: "grows r V V' ((extends r)\<^sup>+ `` {f})" by auto
  show c: "closed r (set V')" using closed_grows [OF assms(1) g] .
  have "(extends r)\<^sup>+ `` {f} \<subseteq> set V'"
  proof
    fix x assume "x \<in> (extends r)\<^sup>+ `` {f}"
    then have "(f, x) \<in> (extends r)\<^sup>+" by simp
    then obtain p where p: "(f, p) \<in> extends r" and px: "(p, x) \<in> (extends r)\<^sup>*"
      by (blast dest: tranclD)
    from p s have "p \<in> set V'" by (auto simp: extends_def)
    with closed_rtrancl [OF c px] show "x \<in> set V'" .
  qed
  with g show "set V' = set V \<union> ancestors r {f}"
    by (auto simp: grows_def ancestors_def)
qed

lemma addFromClass_closed:
  "closed r (set V) \<Longrightarrow> addFromClass d r c V = (V', None) \<Longrightarrow> closed r (set V')"
proof (induction d r c V arbitrary: V' rule: addFromClass.induct)
  case (1 r fqn S)
  then show ?case by simp
next
  case (2 d r fqn S)
  from "2.prems"(2) have cls: "isClassType (r fqn)"
    by (auto simp: Let_def split: if_splits)
  obtain S1 e where b: "(case base (r fqn) of None \<Rightarrow> (S, None)
        | Some b \<Rightarrow> if b = [] then (S, None) else addFromClass d r b S) = (S1, e)"
    by (cases "case base (r fqn) of None \<Rightarrow> (S, None)
        | Some b \<Rightarrow> if b = [] then (S, None) else addFromClass d r b S")
  with "2.prems"(2) cls have e: "e = None"
    by (auto simp: Let_def split: option.splits)
  have c1: "closed r (set S1)"
  proof (cases "base (r fqn)")
    case None
    with b "2.prems"(1) show ?thesis by simp
  next
    case (Some bs)
    show ?thesis
    proof (cases "bs = []")
      case True
      with b Some "2.prems"(1) show ?thesis by simp
    next
      case False
      with b Some e have "addFromClass d r bs S = (S1, None)" by simp
      from "2.IH" [OF refl _ Some False "2.prems"(1) this] cls show ?thesis by simp
    qed
  qed
  show ?case
  proof (cases "interfaces (r fqn)")
    case None
    with "2.prems"(2) cls b e have "V' = S1" by (simp add: Let_def)
    with c1 show ?thesis by simp
  next
    case (Some ifaces)
    with "2.prems"(2) cls b e have "addInterfaces d r ifaces S1 = (V', None)"
      by (simp add: Let_def)
    from addInterfaces_closed(1) [OF c1 this] show ?thesis .
  qed
qed

lemma InterfaceCollection_new_closed:
  "InterfaceCollection_new d r cls = (V, None) \<Longrightarrow> closed r (set V)"
proof (cases "cls = EMPTY_OBJECT_FQN")
  case True
  assume "InterfaceCollection_new d r cls = (V, None)"
  with True show ?thesis by (simp add: InterfaceCollection_new_def closed_def)
next
  case False
  assume "InterfaceCollection_new d r cls = (V, None)"
  with False have "addFromClass d r cls [] = (V, None)"
    by (simp add: InterfaceCollection_new_def)
  moreover have "closed r (set [])" by (simp add: closed_def)
  ultimately show ?thesis by (rule addFromClass_closed [rotated])
qed

lemma rtrancl_Image_step: "R\<^sup>* `` {c} = insert c (R\<^sup>* `` (R `` {c}))"
  by (auto elim: converse_rtranclE intro: converse_rtrancl_into_rtrancl)

lemma baseOf_Image:
  "baseOf r `` {c} = (case base (r c) of None \<Rightarrow> {} | Some b \<Rightarrow> if b = [] then {} else {b})"
  by (auto simp: baseOf_def split: option.splits)

lemma classInterfaces_step:
  "classInterfaces r c =
     parents r c \<union> (case base (r c) of None \<Rightarrow> {}
                     | Some b \<Rightarrow> if b = [] then {} else classInterfaces r b)"
  unfolding classInterfaces_def
  by (subst rtrancl_Image_step) (simp add: baseOf_Image split: option.splits)

lemma addFromClass_classInterfaces:
  "closed r (set V) \<Longrightarrow> addFromClass d r c V = (V', None)
     \<Longrightarrow> set V' = set V \<union> (extends r)\<^sup>* `` classInterfaces r c"
proof (induction d r c V arbitrary: V' rule: addFromClass.induct)
  case (1 r fqn S)
  then show ?case by simp
next
  case (2 d r fqn S)
  let ?B = "case base (r fqn) of None \<Rightarrow> {}
            | Some b \<Rightarrow> if b = [] then {} else classInterfaces r b"
  from "2.prems"(2) have cls: "isClassType (r fqn)"
    by (auto simp: Let_def split: if_splits)
  obtain S1 e where b: "(case base (r fqn) of None \<Rightarrow> (S, None)
        | Some b \<Rightarrow> if b = [] then (S, None) else addFromClass d r b S) = (S1, e)"
    by (cases "case base (r fqn) of None \<Rightarrow> (S, None)
        | Some b \<Rightarrow> if b = [] then (S, None) else addFromClass d r b S")
  with "2.prems"(2) cls have e: "e = None"
    by (auto simp: Let_def split: option.splits)
  have c1: "closed r (set S1) \<and> set S1 = set S \<union> (extends r)\<^sup>* `` ?B"
  proof (cases "base (r fqn)")
    case None
    with b "2.prems"(1) show ?thesis by simp
  next
    case (Some bs)
    show ?thesis
    proof (cases "bs = []")
      case True
      with b Some "2.prems"(1) show ?thesis by simp
    next
      case False
      with b Some e have w: "addFromClass d r bs S = (S1, None)" by simp
      from "2.IH" [OF refl _ Some False "2.prems"(1) w] cls
      have "set S1 = set S \<union> (extends r)\<^sup>* `` classInterfaces r bs" by simp
      moreover from addFromClass_closed [OF "2.prems"(1) w] have "closed r (set S1)" .
      ultimately show ?thesis using Some False by simp
    qed
  qed
  have "set V' = set S1 \<union> (extends r)\<^sup>* `` parents r fqn"
  proof (cases "interfaces (r fqn)")
    case None
    with "2.prems"(2) cls b e have "V' = S1" by (simp add: Let_def)
    with None show ?thesis by (simp add: parents_def)
  next
    case (Some ifaces)
    with "2.prems"(2) cls b e have "addInterfaces d r ifaces S1 = (V', None)"
      by (simp add: Let_def)
    from addInterfaces_closed(2) [OF c1 [THEN conjunct1] this] Some show ?thesis
      by (simp add: parents_def)
  qed
  with c1 have "set V' = set S \<union> (extends r)\<^sup>* `` (parents r fqn \<union> ?B)"
    unfolding Image_Un by blast
  then show ?case by (simp add: classInterfaces_step [of r fqn])
qed

lemma InterfaceCollection_new_classClosure:
  "InterfaceCollection_new d r cls = (V, None) \<Longrightarrow> set V = classClosure r cls"
proof (cases "cls = EMPTY_OBJECT_FQN")
  case True
  assume "InterfaceCollection_new d r cls = (V, None)"
  with True show ?thesis by (simp add: InterfaceCollection_new_def classClosure_def)
next
  case False
  assume "InterfaceCollection_new d r cls = (V, None)"
  with False have w: "addFromClass d r cls [] = (V, None)"
    by (simp add: InterfaceCollection_new_def)
  have "closed r (set [])" by (simp add: closed_def)
  from addFromClass_classInterfaces [OF this w] False show ?thesis
    by (simp add: classClosure_def)
qed

lemma ancestors_Un: "ancestors r (X \<union> Y) = ancestors r X \<union> ancestors r Y"
  by (auto simp: ancestors_def)

lemma ancestors_insert: "ancestors r (insert f X) = ancestors r {f} \<union> ancestors r X"
  by (auto simp: ancestors_def)

lemma ancestors_empty [simp]: "ancestors r {} = {}"
  by (simp add: ancestors_def)

lemma addAllFromInterfaces_closed:
  "closed r (set V) \<Longrightarrow> addAllFromInterfaces d r fs V = (V', None)
     \<Longrightarrow> closed r (set V') \<and> set V' = set V \<union> ancestors r (set fs)"
proof (induction fs arbitrary: V)
  case Nil
  then show ?case by simp
next
  case (Cons f fs)
  obtain V1 e where w: "addFromInterface d r f V = (V1, e)"
    by (cases "addFromInterface d r f V")
  with Cons.prems(2) have e: "e = None" and rest: "addAllFromInterfaces d r fs V1 = (V', None)"
    by (auto split: option.splits)
  from addFromInterface_closed [OF Cons.prems(1) w [unfolded e]]
  have c1: "closed r (set V1)" and s1: "set V1 = set V \<union> ancestors r {f}" by simp_all
  from Cons.IH [OF c1 rest] s1 show ?case
    by (auto simp: ancestors_insert [of r f "set fs"])
qed

lemma mergeLoop_closed:
  "closed r (set prov) \<Longrightarrow> mergeLoop d r fs (decl, prov) = ((decl', prov'), None)
     \<Longrightarrow> closed r (set prov') \<and> set prov' = set prov \<union> ancestors r (set fs)
         \<and> set decl' = set decl \<union> set fs"
proof (induction fs arbitrary: decl prov)
  case Nil
  then show ?case by simp
next
  case (Cons f fs)
  obtain V1 e where w: "addFromInterface d r f prov = (V1, e)"
    by (cases "addFromInterface d r f prov")
  with Cons.prems(2) have e: "e = None"
    and rest: "mergeLoop d r fs (Set_add f decl, V1) = ((decl', prov'), None)"
    by (auto split: option.splits)
  from addFromInterface_closed [OF Cons.prems(1) w [unfolded e]]
  have c1: "closed r (set V1)" and s1: "set V1 = set prov \<union> ancestors r {f}" by simp_all
  from Cons.IH [OF c1 rest] s1 show ?case
    by (auto simp: ancestors_insert [of r f "set fs"])
qed

lemma set_deleteProvided [simp]: "set (deleteProvided prov decl) = set decl - set prov"
  unfolding deleteProvided_def
  by (induction prov arbitrary: decl) (auto simp: Set_delete_def)

lemma set_fold_Set_add: "set (fold Set_add xs acc) = set acc \<union> set xs"
  by (induction xs arbitrary: acc) auto

lemma set_Set_of [simp]: "set (Set_of xs) = set xs"
  by (simp add: Set_of_def set_fold_Set_add)

lemma ObjectHandle_new_interfaces:
  assumes "ObjectHandle_new d r sq cls inst S = (Inr h, sq')"
  shows "InterfaceCollection_new d r cls = (fst (InterfaceCollection_new d r cls), None)"
    and "closed r (set (providedInterfaces h))"
    and "set (providedInterfaces h) = set (fst (InterfaceCollection_new d r cls)) \<union> ancestors r (set S)"
    and "set (declaredInterfaces h) = set S - set (providedInterfaces h)"
proof -
  obtain p0 e0 where p0: "InterfaceCollection_new d r cls = (p0, e0)"
    by (cases "InterfaceCollection_new d r cls")
  with assms have e0: "e0 = None"
    by (auto simp: ObjectHandle_new_def Let_def case_prod_unfold split: option.splits)
  obtain p1 e1 where p1: "addAllFromInterfaces d r (Set_of S) p0 = (p1, e1)"
    by (cases "addAllFromInterfaces d r (Set_of S) p0")
  with assms p0 e0 have e1: "e1 = None"
    by (auto simp: ObjectHandle_new_def Let_def case_prod_unfold split: option.splits)
  from assms p0 e0 p1 e1 have h: "providedInterfaces h = p1"
    "declaredInterfaces h = deleteProvided p1 (Set_of S)"
    by (auto simp: ObjectHandle_new_def Let_def case_prod_unfold)
  from InterfaceCollection_new_closed [OF p0 [unfolded e0]] have c0: "closed r (set p0)" .
  note a = addAllFromInterfaces_closed [OF c0 p1 [unfolded e1], unfolded set_Set_of]
  note c1 = a [THEN conjunct1] and s1 = a [THEN conjunct2]
  show "InterfaceCollection_new d r cls = (fst (InterfaceCollection_new d r cls), None)"
    using p0 e0 by simp
  show "closed r (set (providedInterfaces h))" using c1 h by simp
  show "set (providedInterfaces h) = set (fst (InterfaceCollection_new d r cls)) \<union> ancestors r (set S)"
    using s1 h p0 by simp
  show "set (declaredInterfaces h) = set S - set (providedInterfaces h)"
    using h by simp
qed

lemma mergeInterfaces_interfaces:
  assumes "closed r (set (providedInterfaces h0))"
    and "set (declaredInterfaces h0) \<inter> set (providedInterfaces h0) = {}"
    and "ObjectHandle_mergeInterfaces d r S h0 = (h1, None)"
  shows "closed r (set (providedInterfaces h1))
    \<and> set (providedInterfaces h1) = set (providedInterfaces h0) \<union> ancestors r (set S)
    \<and> set (declaredInterfaces h1) = (set (declaredInterfaces h0) \<union> set S) - set (providedInterfaces h1)"
proof (cases "S = []")
  case True
  with assms(3) have "h1 = h0" by (simp add: ObjectHandle_mergeInterfaces_def)
  with assms(1,2) True show ?thesis by auto
next
  case False
  obtain dc pv e where m: "mergeLoop d r S (declaredInterfaces h0, providedInterfaces h0) = ((dc, pv), e)"
    by (cases "mergeLoop d r S (declaredInterfaces h0, providedInterfaces h0)") auto
  with assms(3) False have e: "e = None"
    and h: "h1 = h0\<lparr> declaredInterfaces := deleteProvided pv dc, providedInterfaces := pv \<rparr>"
    by (auto simp: ObjectHandle_mergeInterfaces_def split: option.splits)
  note a = mergeLoop_closed [OF assms(1) m [unfolded e]]
  have p: "providedInterfaces h1 = pv" and q: "declaredInterfaces h1 = deleteProvided pv dc"
    using h by simp_all
  from a [THEN conjunct1] have 1: "closed r (set (providedInterfaces h1))"
    unfolding p .
  from a [THEN conjunct2, THEN conjunct1]
  have 2: "set (providedInterfaces h1) = set (providedInterfaces h0) \<union> ancestors r (set S)"
    unfolding p .
  from a [THEN conjunct2, THEN conjunct2]
  have 3: "set (declaredInterfaces h1) = (set (declaredInterfaces h0) \<union> set S) - set (providedInterfaces h1)"
    unfolding p q by simp
  from 1 2 3 show ?thesis by blast
qed

lemma mergeAll_interfaces:
  "closed r (set (providedInterfaces h0))
   \<Longrightarrow> set (declaredInterfaces h0) \<inter> set (providedInterfaces h0) = {}
   \<Longrightarrow> mergeAll d r fs h0 = Some h
   \<Longrightarrow> closed r (set (providedInterfaces h))
     \<and> set (declaredInterfaces h) \<inter> set (providedInterfaces h) = {}
     \<and> set (providedInterfaces h) =
         set (providedInterfaces h0) \<union> ancestors r (\<Union>(set ` set fs))
     \<and> set (declaredInterfaces h) \<union> set (providedInterfaces h) =
         set (declaredInterfaces h0) \<union> set (providedInterfaces h0) \<union> \<Union>(set ` set fs)
           \<union> ancestors r (\<Union>(set ` set fs))"
proof (induction fs arbitrary: h0)
  case Nil
  then show ?case by simp
next
  case (Cons f fs)
  obtain h1 e where m: "ObjectHandle_mergeInterfaces d r f h0 = (h1, e)"
    by (cases "ObjectHandle_mergeInterfaces d r f h0")
  with Cons.prems(3) have e: "e = None" and rest: "mergeAll d r fs h1 = Some h"
    by (auto split: option.splits)
  note a = mergeInterfaces_interfaces [OF Cons.prems(1,2) m [unfolded e]]
  note a1 = a [THEN conjunct1] and a2 = a [THEN conjunct2, THEN conjunct1]
    and a3 = a [THEN conjunct2, THEN conjunct2]
  from a3 have d1: "set (declaredInterfaces h1) \<inter> set (providedInterfaces h1) = {}" by blast
  from a2 a3 have u1: "set (declaredInterfaces h1) \<union> set (providedInterfaces h1) =
      set (declaredInterfaces h0) \<union> set (providedInterfaces h0) \<union> set f \<union> ancestors r (set f)"
    by blast
  note ih = Cons.IH [OF a1 d1 rest]
  note i1 = ih [THEN conjunct1] and i2 = ih [THEN conjunct2, THEN conjunct1]
    and i3 = ih [THEN conjunct2, THEN conjunct2, THEN conjunct1]
    and i4 = ih [THEN conjunct2, THEN conjunct2, THEN conjunct2]
  have p: "set (providedInterfaces h) =
         set (providedInterfaces h0) \<union> ancestors r (\<Union>(set ` set (f # fs)))"
    using i3 a2 by (simp add: ancestors_Un Un_assoc)
  have u: "set (declaredInterfaces h) \<union> set (providedInterfaces h) =
         set (declaredInterfaces h0) \<union> set (providedInterfaces h0) \<union> \<Union>(set ` set (f # fs))
           \<union> ancestors r (\<Union>(set ` set (f # fs)))"
    unfolding i4 u1 by (auto simp: ancestors_Un)
  from i1 i2 p u show ?case by blast
qed

text \<open>
  A merge that throws has added to both sets and has not taken the provided interfaces
  out of the declared ones: \<^verbatim>\<open>mergeInterfaces\<close> has no \<^verbatim>\<open>finally\<close>.
\<close>

lemma merge_throw_example:
  "ObjectHandle_mergeInterfaces 10 exampleTypes [''IB'', ''X'']
     \<lparr> classFQN = ''X'', instanceId = ''X@10000'', object = PlainObject 0,
       proxyReference = None, declaredInterfaces = [''IA''], providedInterfaces = [] \<rparr> =
     (\<lparr> classFQN = ''X'', instanceId = ''X@10000'', object = PlainObject 0,
        proxyReference = None, declaredInterfaces = [''IA'', ''IB''],
        providedInterfaces = [''IA''] \<rparr>, Some InvalidType)"
  apply (simp add: ObjectHandle_mergeInterfaces_def)
  apply (simp add: exampleTypes_def isInterfaceType_def Set_add_def numeral_nat)
  done

text \<open>\<^verbatim>\<open>mergeInterfaces([])\<close> on the handle so left returns at once, the overlap still there.\<close>

lemma merge_after_throw_example:
  "ObjectHandle_mergeInterfaces 10 exampleTypes []
     \<lparr> classFQN = ''X'', instanceId = ''X@10000'', object = PlainObject 0,
       proxyReference = None, declaredInterfaces = [''IA'', ''IB''],
       providedInterfaces = [''IA''] \<rparr> =
     (\<lparr> classFQN = ''X'', instanceId = ''X@10000'', object = PlainObject 0,
        proxyReference = None, declaredInterfaces = [''IA'', ''IB''],
        providedInterfaces = [''IA''] \<rparr>, None)"
  by (simp add: ObjectHandle_mergeInterfaces_def)

subsection \<open>Handles of the small type universe\<close>

lemma exampleClosure: "InterfaceCollection_new 10 exampleTypes ''X'' = ([], None)"
  by (simp add: InterfaceCollection_new_def EMPTY_OBJECT_FQN_def exampleTypes_def
      isClassType_def numeral_nat)

lemma exampleHandleIB_new:
  "ObjectHandle_new 10 exampleTypes Sequence_default ''X'' (PlainObject 0) [''IB''] =
     (Inr \<lparr> classFQN = ''X'', instanceId = ''X@10000'', object = PlainObject 0,
            proxyReference = None, declaredInterfaces = [''IB''],
            providedInterfaces = [''IA''] \<rparr>,
      \<lparr> stride = 1, nextValue = Num 10001 \<rparr>)"
  apply (simp add: ObjectHandle_new_def Sequence_next_def Sequence_default_def numToString_10000 numPlus_10000
      exampleClosure)
  apply (simp add: exampleTypes_def isInterfaceType_def Set_of_def Set_add_def
      deleteProvided_def Set_delete_def numeral_nat)
  done

lemma exampleMerge:
  "ObjectHandle_mergeInterfaces 10 exampleTypes [''IB'', ''IA''] (handleHeap exampleStore 0) =
     (\<lparr> classFQN = ''X'', instanceId = ''X@10000'', object = PlainObject 0,
        proxyReference = Some 0, declaredInterfaces = [''IB''],
        providedInterfaces = [''IA''] \<rparr>, None)"
  apply (simp add: exampleStore_eq ObjectHandle_mergeInterfaces_def)
  apply (simp add: exampleTypes_def isInterfaceType_def Set_add_def
      deleteProvided_def Set_delete_def numeral_nat)
  done

subsection \<open>Registering an instance that has a handle\<close>

lemma register_again_same_handle:
  assumes "o_instance opts = Some x" and "tryGetHandle s x = Inr (Some a)"
    and "ObjectHandle_mergeInterfaces d (resolveType s) (o_interfaceFQNs opts) (handleHeap s a)
           = (h, None)"
  shows "\<exists>m s'. ObjectStore_register d opts s = (Inr m, s')
           \<and> TOKEN_REF (m_objRef m) = instanceId (handleHeap s a)
           \<and> handles s' = handles s \<and> instanceInfo s' = instanceInfo s
           \<and> nextHandle s' = nextHandle s \<and> idSequence s' = idSequence s"
proof -
  have i: "instanceId h = instanceId (handleHeap s a)"
    using assms(3)
    by (auto simp: ObjectHandle_mergeInterfaces_def split: if_splits prod.splits option.splits)
  have p: "instanceId (handleHeap (snd (ObjectHandle_proxy a s1)) a) = instanceId (handleHeap s1 a)"
    for s1
    by (simp add: ObjectHandle_proxy_def mintProxy_def Let_def split: option.splits)
  have q: "instanceInfo (snd (ObjectHandle_proxy a s1)) = instanceInfo s1
      \<and> nextHandle (snd (ObjectHandle_proxy a s1)) = nextHandle s1" for s1
    by (simp add: ObjectHandle_proxy_def mintProxy_def Let_def split: option.splits)
  show ?thesis
    using assms(1,2,3) i p q
    by (simp add: ObjectStore_register_def Let_def case_prod_unfold ObjectHandle_objRef_def)
qed

subsection \<open>The FQN marker\<close>

lemma Get_typeInfo_chain:
  "prototypeChain heap a ps \<Longrightarrow>
     Get_typeInfo heap a = Some (firstMarker (map (\<lambda>b. typeInfo (heap b)) (a # ps)))"
proof (induction ps arbitrary: a)
  case Nil
  then show ?case
    by (subst Get_typeInfo.simps) (simp split: option.splits)
next
  case (Cons p ps)
  then have "Get_typeInfo heap p = Some (firstMarker (map (\<lambda>b. typeInfo (heap b)) (p # ps)))"
    by simp
  with Cons.prems show ?case
    by (subst Get_typeInfo.simps) (simp split: option.splits)
qed

subsection \<open>The host's reference table\<close>

lemma drain_facts:
  assumes "drain q (res, B, R) = (res', B', R')"
    and "\<forall>ref iid. R ref = Some iid \<longrightarrow> (\<exists>h. B iid = Some h \<and> weakReference h = ref)"
    and "\<forall>iid \<in> res. B iid = None \<and> iid \<notin> ran R"
  shows "(\<forall>ref iid. R' ref = Some iid \<longrightarrow> (\<exists>h. B' iid = Some h \<and> weakReference h = ref))
       \<and> (\<forall>iid \<in> res'. B' iid = None \<and> iid \<notin> ran R')
       \<and> res' \<subseteq> res \<union> ran R \<and> ran R' \<subseteq> ran R"
  using assms
proof (induction q arbitrary: res B R)
  case Nil
  then show ?case by auto
next
  case (Cons ref q)
  show ?case
  proof (cases "R ref")
    case None
    with Cons.prems(1) have "drain q (res, B, R) = (res', B', R')" by simp
    from Cons.IH [OF this Cons.prems(2,3)] show ?thesis .
  next
    case (Some iid)
    let ?B = "B(iid := None)" and ?R = "R(ref := None)"
    from Some Cons.prems(1) have d: "drain q (insert iid res, ?B, ?R) = (res', B', R')" by simp
    from Some Cons.prems(2) obtain h where h: "B iid = Some h" "weakReference h = ref" by blast
    have only: "R r = Some iid \<Longrightarrow> r = ref" for r
      using Cons.prems(2) h by fastforce
    have i: "\<forall>r i. ?R r = Some i \<longrightarrow> (\<exists>h. ?B i = Some h \<and> weakReference h = r)"
    proof (intro allI impI)
      fix r i assume a: "?R r = Some i"
      then have r: "r \<noteq> ref" and ri: "R r = Some i" by (auto split: if_splits)
      with only have "i \<noteq> iid" by blast
      with Cons.prems(2) ri show "\<exists>h. ?B i = Some h \<and> weakReference h = r" by simp
    qed
    have ran: "ran ?R \<subseteq> ran R"
      by (auto simp: ran_def split: if_splits)
    have notin: "iid \<notin> ran ?R"
    proof
      assume "iid \<in> ran ?R"
      then obtain r where "?R r = Some iid" by (auto simp: ran_def)
      then have "r \<noteq> ref" "R r = Some iid" by (auto split: if_splits)
      with only show False by blast
    qed
    have j: "\<forall>i \<in> insert iid res. ?B i = None \<and> i \<notin> ran ?R"
      using Cons.prems(3) ran notin by auto
    from Cons.IH [OF d i j]
    have 1: "\<forall>ref iid. R' ref = Some iid \<longrightarrow> (\<exists>h. B' iid = Some h \<and> weakReference h = ref)"
      and 2: "\<forall>iid \<in> res'. B' iid = None \<and> iid \<notin> ran R'"
      and 3: "res' \<subseteq> insert iid res \<union> ran ?R" and 4: "ran R' \<subseteq> ran ?R"
      by blast+
    have "iid \<in> ran R" using Some by (auto simp: ran_def)
    with 3 ran have t3: "res' \<subseteq> res \<union> ran R" by blast
    from 4 ran have t4: "ran R' \<subseteq> ran R" by blast
    from 1 2 t3 t4 show ?thesis by blast
  qed
qed

lemma getDroppedReferences_facts:
  assumes "hostInv s"
  shows "hostInv (snd (JavaObjectStore_getDroppedReferences s))"
    and "\<forall>iid \<in> fst (JavaObjectStore_getDroppedReferences s).
           objectsById (snd (JavaObjectStore_getDroppedReferences s)) iid = None
           \<and> iid \<notin> ran (referenceInstanceId (snd (JavaObjectStore_getDroppedReferences s)))"
    and "fst (JavaObjectStore_getDroppedReferences s) \<subseteq> ran (referenceInstanceId s)"
    and "ran (referenceInstanceId (snd (JavaObjectStore_getDroppedReferences s)))
           \<subseteq> ran (referenceInstanceId s)"
proof -
  obtain res B R where d: "drain (referenceQueue s) ({}, objectsById s, referenceInstanceId s)
      = (res, B, R)"
    by (cases "drain (referenceQueue s) ({}, objectsById s, referenceInstanceId s)") auto
  have e: "\<forall>iid \<in> {}. objectsById s iid = None \<and> iid \<notin> ran (referenceInstanceId s)" by simp
  note f = drain_facts [OF d assms [unfolded hostInv_def] e]
  have g: "JavaObjectStore_getDroppedReferences s =
      (res, s\<lparr> objectsById := B, referenceInstanceId := R, referenceQueue := [] \<rparr>)"
    by (simp add: JavaObjectStore_getDroppedReferences_def d)
  show "hostInv (snd (JavaObjectStore_getDroppedReferences s))"
    using f [THEN conjunct1] by (simp add: g hostInv_def)
  show "\<forall>iid \<in> fst (JavaObjectStore_getDroppedReferences s).
           objectsById (snd (JavaObjectStore_getDroppedReferences s)) iid = None
           \<and> iid \<notin> ran (referenceInstanceId (snd (JavaObjectStore_getDroppedReferences s)))"
    using f [THEN conjunct2, THEN conjunct1] by (simp add: g)
  show "fst (JavaObjectStore_getDroppedReferences s) \<subseteq> ran (referenceInstanceId s)"
    using f [THEN conjunct2, THEN conjunct2, THEN conjunct1] by (simp add: g)
  show "ran (referenceInstanceId (snd (JavaObjectStore_getDroppedReferences s)))
           \<subseteq> ran (referenceInstanceId s)"
    using f [THEN conjunct2, THEN conjunct2, THEN conjunct2] by (simp add: g)
qed

lemma hostInv_new: "hostInv JavaObjectStore_new"
  by (simp add: hostInv_def JavaObjectStore_new_def)

lemma hostInv_update_handle:
  assumes "hostInv s" and "objectsById s iid = Some h" and "weakReference h' = weakReference h"
  shows "hostInv (s\<lparr> objectsById := (objectsById s)(iid \<mapsto> h') \<rparr>)"
  unfolding hostInv_def
proof (intro allI impI)
  fix ref i
  assume "referenceInstanceId (s\<lparr> objectsById := (objectsById s)(iid \<mapsto> h') \<rparr>) ref = Some i"
  then have "referenceInstanceId s ref = Some i" by simp
  with assms(1) obtain h0 where h0: "objectsById s i = Some h0" "weakReference h0 = ref"
    unfolding hostInv_def by blast
  show "\<exists>h. objectsById (s\<lparr> objectsById := (objectsById s)(iid \<mapsto> h') \<rparr>) i = Some h
          \<and> weakReference h = ref"
  proof (cases "i = iid")
    case True
    with h0 assms(2,3) show ?thesis by simp
  next
    case False
    with h0 show ?thesis by simp
  qed
qed

lemma hostInv_new_handle:
  assumes "hostInv s" and "objectsById s iid = None"
  shows "hostInv (s\<lparr> nextReference := n, referents := rs,
            referenceInstanceId := (referenceInstanceId s)(ref \<mapsto> iid),
            objectsById := (objectsById s)(iid \<mapsto>
              \<lparr> hostInstanceId = iid, weakReference = ref, strongReference = Some obj \<rparr>) \<rparr>)"
  unfolding hostInv_def
proof (intro allI impI)
  fix r i
  assume a: "referenceInstanceId (s\<lparr> nextReference := n, referents := rs,
            referenceInstanceId := (referenceInstanceId s)(ref \<mapsto> iid),
            objectsById := (objectsById s)(iid \<mapsto>
              \<lparr> hostInstanceId = iid, weakReference = ref, strongReference = Some obj \<rparr>) \<rparr>) r
       = Some i"
  show "\<exists>h. objectsById (s\<lparr> nextReference := n, referents := rs,
            referenceInstanceId := (referenceInstanceId s)(ref \<mapsto> iid),
            objectsById := (objectsById s)(iid \<mapsto>
              \<lparr> hostInstanceId = iid, weakReference = ref, strongReference = Some obj \<rparr>) \<rparr>) i
          = Some h \<and> weakReference h = r"
  proof (cases "r = ref")
    case True
    with a show ?thesis by simp
  next
    case False
    with a have m: "referenceInstanceId s r = Some i" by simp
    with assms(1) obtain h0 where h0: "objectsById s i = Some h0" "weakReference h0 = r"
      unfolding hostInv_def by blast
    with assms(2) have "i \<noteq> iid" by auto
    with h0 show ?thesis by simp
  qed
qed

lemma retain_weakReference: "weakReference (fst (ObjectHandle_retain s h)) = weakReference h"
  by (simp add: ObjectHandle_retain_def Let_def)

lemma hostInv_register: "hostInv s \<Longrightarrow> hostInv (snd (JavaObjectStore_register obj iid s))"
proof (cases "objectsById s iid")
  case None
  assume "hostInv s"
  from hostInv_new_handle [OF this None] None show ?thesis
    by (simp add: JavaObjectStore_register_def Let_def)
next
  case (Some h)
  assume "hostInv s"
  from hostInv_update_handle [OF this Some retain_weakReference [of s h]] Some show ?thesis
    by (simp add: JavaObjectStore_register_def case_prod_unfold split: option.splits)
qed

lemma hostInv_release: "hostInv s \<Longrightarrow> hostInv (snd (JavaObjectStore_release iid s))"
proof (cases "objectsById s iid")
  case None
  assume "hostInv s"
  with None show ?thesis by (simp add: JavaObjectStore_release_def)
next
  case (Some h)
  assume "hostInv s"
  from hostInv_update_handle [OF this Some, of "ObjectHandle_release h"] Some show ?thesis
    by (simp add: JavaObjectStore_release_def ObjectHandle_release_def)
qed

lemma hostInv_retain: "hostInv s \<Longrightarrow> hostInv (snd (JavaObjectStore_retain iid s))"
proof (cases "objectsById s iid")
  case None
  assume "hostInv s"
  with None show ?thesis by (simp add: JavaObjectStore_retain_def)
next
  case (Some h)
  assume "hostInv s"
  from hostInv_update_handle [OF this Some retain_weakReference [of s h]] Some show ?thesis
    by (simp add: JavaObjectStore_retain_def case_prod_unfold split: option.splits)
qed

lemma hostInv_collect: "hostInv s \<Longrightarrow> hostInv (hostCollect ref s)"
  unfolding hostInv_def hostCollect_def by auto

lemma hostInv_exec: "hostInv s \<Longrightarrow> hostInv (hostExec x s)"
  by (cases x) (simp_all add: hostInv_register hostInv_release hostInv_retain hostInv_collect
      getDroppedReferences_facts(1))

lemma hostInv_run: "hostInv s \<Longrightarrow> hostInv (hostRun xs s)"
  by (induction xs arbitrary: s) (simp_all add: hostInv_exec)

lemma absent_exec:
  assumes "hostInv s" and "objectsById s iid = None" and "\<not> registers iid x"
  shows "objectsById (hostExec x s) iid = None"
proof (cases x)
  case (HostRegister obj i)
  with assms(3) have "i \<noteq> iid" by simp
  with assms(2) HostRegister show ?thesis
    by (auto simp: JavaObjectStore_register_def ObjectHandle_retain_def Let_def
        split: option.splits if_splits)
next
  case (HostRelease i)
  with assms(2) show ?thesis
    by (auto simp: JavaObjectStore_release_def split: option.splits)
next
  case (HostRetain i)
  with assms(2) show ?thesis
    by (auto simp: JavaObjectStore_retain_def ObjectHandle_retain_def Let_def
        split: option.splits if_splits)
next
  case HostGetDroppedReferences
  have "ran (referenceInstanceId (snd (JavaObjectStore_getDroppedReferences s)))
           \<subseteq> ran (referenceInstanceId s)"
    using getDroppedReferences_facts(4) [OF assms(1)] .
  obtain res B R where d: "drain (referenceQueue s) ({}, objectsById s, referenceInstanceId s)
      = (res, B, R)"
    by (cases "drain (referenceQueue s) ({}, objectsById s, referenceInstanceId s)") auto
  have "B iid = None"
  proof -
    have "drain q (r0, B0, R0) = (r1, B1, R1) \<Longrightarrow> B0 iid = None \<Longrightarrow> B1 iid = None"
      for q r0 B0 R0 r1 B1 R1
      by (induction q arbitrary: r0 B0 R0) (auto split: option.splits)
    from this [OF d assms(2)] show ?thesis .
  qed
  with HostGetDroppedReferences d show ?thesis
    by (simp add: JavaObjectStore_getDroppedReferences_def)
next
  case (HostCollect r)
  with assms(2) show ?thesis by (simp add: hostCollect_def)
qed

lemma absent_not_mapped:
  assumes "hostInv s" and "objectsById s iid = None"
  shows "iid \<notin> ran (referenceInstanceId s)"
proof
  assume "iid \<in> ran (referenceInstanceId s)"
  then obtain r where "referenceInstanceId s r = Some iid" by (auto simp: ran_def)
  with assms(1) obtain h where "objectsById s iid = Some h"
    unfolding hostInv_def by blast
  with assms(2) show False by simp
qed

lemma absent_not_reported:
  "hostInv s \<Longrightarrow> objectsById s iid = None \<Longrightarrow> \<forall>x \<in> set xs. \<not> registers iid x
     \<Longrightarrow> iid \<notin> reported xs s \<and> objectsById (hostRun xs s) iid = None"
proof (induction xs arbitrary: s)
  case Nil
  then show ?case by simp
next
  case (Cons x xs)
  from Cons.prems have nx: "\<not> registers iid x" and rest: "\<forall>x \<in> set xs. \<not> registers iid x"
    by simp_all
  note inv' = hostInv_exec [OF Cons.prems(1), of x]
  note abs' = absent_exec [OF Cons.prems(1,2) nx]
  note ih = Cons.IH [OF inv' abs' rest]
  show ?case
  proof (cases "x = HostGetDroppedReferences")
    case True
    have "iid \<notin> fst (JavaObjectStore_getDroppedReferences s)"
      using getDroppedReferences_facts(3) [OF Cons.prems(1)]
        absent_not_mapped [OF Cons.prems(1,2)] by blast
    with ih True show ?thesis by simp
  next
    case False
    then have "reported (x # xs) s = reported xs (hostExec x s)"
      by (cases x) simp_all
    with ih show ?thesis by simp
  qed
qed

lemma hostRun_append: "hostRun (xs @ ys) s = hostRun ys (hostRun xs s)"
  by (induction xs arbitrary: s) simp_all

lemma exampleHostStore_eq:
  "exampleHostStore =
     \<lparr> objectsById = [''A@10000'' \<mapsto>
          \<lparr> hostInstanceId = ''A@10000'', weakReference = 0, strongReference = None \<rparr>],
       referenceQueue = [0], referenceInstanceId = [0 \<mapsto> ''A@10000''],
       referents = Map.empty(0 := None), nextReference = Suc 0 \<rparr>"
  by (simp add: exampleHostStore_def exampleHostOps_def JavaObjectStore_new_def
      JavaObjectStore_register_def JavaObjectStore_release_def
      ObjectHandle_release_def hostCollect_def Let_def)

lemma exampleHostStore_drain:
  "JavaObjectStore_getDroppedReferences exampleHostStore =
     ({''A@10000''},
      \<lparr> objectsById = Map.empty, referenceQueue = [], referenceInstanceId = Map.empty,
        referents = Map.empty, nextReference = Suc 0 \<rparr>)"
  by (simp add: exampleHostStore_eq JavaObjectStore_getDroppedReferences_def)

lemma exampleHostStore2_eq:
  "exampleHostStore2 =
     \<lparr> objectsById = [''A@10000'' \<mapsto>
          \<lparr> hostInstanceId = ''A@10000'', weakReference = Suc 0, strongReference = None \<rparr>],
       referenceQueue = [Suc 0], referenceInstanceId = [Suc 0 \<mapsto> ''A@10000''],
       referents = Map.empty(Suc 0 := None), nextReference = Suc (Suc 0) \<rparr>"
proof -
  have "exampleHostStore2 =
      hostRun [HostGetDroppedReferences, HostRegister 8 ''A@10000'',
               HostRelease ''A@10000'', HostCollect (Suc 0)] exampleHostStore"
    by (simp only: exampleHostStore2_def exampleHostOps2_def hostRun_append exampleHostStore_def)
  also have "\<dots> = hostRun [HostRegister 8 ''A@10000'', HostRelease ''A@10000'', HostCollect (Suc 0)]
      (snd (JavaObjectStore_getDroppedReferences exampleHostStore))"
    by simp
  also have "\<dots> = \<lparr> objectsById = [''A@10000'' \<mapsto>
          \<lparr> hostInstanceId = ''A@10000'', weakReference = Suc 0, strongReference = None \<rparr>],
       referenceQueue = [Suc 0], referenceInstanceId = [Suc 0 \<mapsto> ''A@10000''],
       referents = Map.empty(Suc 0 := None), nextReference = Suc (Suc 0) \<rparr>"
    unfolding exampleHostStore_drain
    by (simp add: JavaObjectStore_register_def JavaObjectStore_release_def
      ObjectHandle_release_def hostCollect_def Let_def)
  finally show ?thesis .
qed

subsection \<open>Deleting a handle\<close>

text \<open>
  \<^verbatim>\<open>delete\<close> of an instance ID that has a handle: with a live proxy the assertion fails and
  the store is as it was; without one the entry of the \<open>handles\<close> map is removed and
  \<^verbatim>\<open>unmanaged\<close> is emitted. Nothing else changes: the entry of \<open>instanceInfo\<close> stays.
\<close>

lemma delete_known_handle:
  assumes "handles s iid = Some a"
  shows "ObjectStore_delete iid s =
           (if hasProxy s (handleHeap s a) then (Inl StillReachable, s)
            else (Inr (), s\<lparr> handles := (handles s)(iid := None),
                              emitted := emitted s @ [Unmanaged iid] \<rparr>))"
  using assms by (simp add: ObjectStore_delete_def emit_def)

lemma delete_reachable_example:
  "ObjectStore_delete ''X@10000'' exampleStore = (Inl StillReachable, exampleStore)"
proof -
  have h: "handles exampleStore ''X@10000'' = Some 0"
    by (simp add: exampleStore_eq)
  have l: "hasProxy exampleStore (handleHeap exampleStore 0)"
    by (simp add: exampleStore_eq hasProxy_def)
  from delete_known_handle [OF h] l show ?thesis by simp
qed

text \<open>The store after the proxy of the first object was collected and its ID deleted.\<close>

lemma deleted_example_fields:
  "resolveType (snd (ObjectStore_delete ''X@10000'' (collectProxy 0 exampleStore))) = exampleTypes"
  "handleHeap (snd (ObjectStore_delete ''X@10000'' (collectProxy 0 exampleStore)))
     = handleHeap exampleStore"
  "liveProxies (snd (ObjectStore_delete ''X@10000'' (collectProxy 0 exampleStore))) = {}"
  "nextProxy (snd (ObjectStore_delete ''X@10000'' (collectProxy 0 exampleStore))) = Suc 0"
  "handles (snd (ObjectStore_delete ''X@10000'' (collectProxy 0 exampleStore))) = Map.empty"
  "instanceInfo (snd (ObjectStore_delete ''X@10000'' (collectProxy 0 exampleStore)))
     = [PlainObject 0 \<mapsto> 0]"
  "emitted (snd (ObjectStore_delete ''X@10000'' (collectProxy 0 exampleStore)))
     = [Managed ''X@10000'', Unmanaged ''X@10000'']"
  "idSequence (snd (ObjectStore_delete ''X@10000'' (collectProxy 0 exampleStore)))
     = \<lparr> stride = 1, nextValue = Num 10001 \<rparr>"
  unfolding delete_collected_example snd_conv
  by (simp_all add: exampleStore_eq collectProxy_def)

lemma deleted_example_tryGetHandle:
  "tryGetHandle (snd (ObjectStore_delete ''X@10000'' (collectProxy 0 exampleStore))) (PlainObject 0)
     = Inr (Some 0)"
  by (simp add: tryGetHandle_def realObject_def deleted_example_fields)

lemma exampleHandle_eq:
  "handleHeap exampleStore 0 =
     \<lparr> classFQN = ''X'', instanceId = ''X@10000'', object = PlainObject 0,
       proxyReference = Some 0, declaredInterfaces = [''IA''], providedInterfaces = [] \<rparr>"
  by (simp add: exampleStore_eq)

lemma exampleMerge_same:
  "ObjectHandle_mergeInterfaces 10 exampleTypes [''IA''] (handleHeap exampleStore 0) =
      (handleHeap exampleStore 0, None)"
  apply (simp add: exampleStore_eq ObjectHandle_mergeInterfaces_def)
  apply (simp add: exampleTypes_def isInterfaceType_def Set_add_def deleteProvided_def
      Set_delete_def numeral_nat)
  done

section \<open>The claims\<close>

text \<open>
  C2, at a handle without a live proxy. The first object of class \<^verbatim>\<open>X\<close> is registered, its
  proxy is collected, and \<^verbatim>\<open>delete\<close> is called with its instance ID: the handle is found
  and has no live proxy. \<^verbatim>\<open>delete\<close> returns, the ID is gone from the \<open>handles\<close> map,
  \<^verbatim>\<open>unmanaged\<close> has been emitted and \<^verbatim>\<open>dereference\<close> of the ID fails. The handle is not
  removed from the store, though: the entry of \<open>instanceInfo\<close> is still there, and
  \<^verbatim>\<open>refObject\<close> of the object still returns the reference with the deleted ID. (With a
  live proxy \<^verbatim>\<open>delete\<close> fails with \<open>StillReachable\<close> and leaves the store as it was:
  lemmas \<open>delete_known_handle\<close>, \<open>delete_reachable_example\<close>.)
\<close>

theorem delete_keeps_instanceInfo:
  "handles (collectProxy 0 exampleStore) ''X@10000'' = Some 0
   \<and> \<not> hasProxy (collectProxy 0 exampleStore) (handleHeap (collectProxy 0 exampleStore) 0)
   \<and> fst (ObjectStore_delete ''X@10000'' (collectProxy 0 exampleStore)) = Inr ()
   \<and> handles (snd (ObjectStore_delete ''X@10000'' (collectProxy 0 exampleStore))) ''X@10000'' = None
   \<and> emitted (snd (ObjectStore_delete ''X@10000'' (collectProxy 0 exampleStore)))
       = [Managed ''X@10000'', Unmanaged ''X@10000'']
   \<and> fst (ObjectStore_dereference ''X@10000''
            (snd (ObjectStore_delete ''X@10000'' (collectProxy 0 exampleStore))))
       = Inl UnknownReference
   \<and> instanceInfo (snd (ObjectStore_delete ''X@10000'' (collectProxy 0 exampleStore)))
        (PlainObject 0) = Some 0
   \<and> ObjectStore_refObject (PlainObject 0)
        (snd (ObjectStore_delete ''X@10000'' (collectProxy 0 exampleStore)))
       = Inr (Some \<lparr> TOKEN_REF = ''X@10000'', TOKEN_INTERFACES = Some [''IA''] \<rparr>)"
proof -
  have h: "handles (collectProxy 0 exampleStore) ''X@10000'' = Some 0"
    by (simp add: exampleStore_eq)
  have l: "\<not> hasProxy (collectProxy 0 exampleStore) (handleHeap (collectProxy 0 exampleStore) 0)"
    by (simp add: exampleStore_eq hasProxy_def collectProxy_def)
  have d: "fst (ObjectStore_delete ''X@10000'' (collectProxy 0 exampleStore)) = Inr ()"
    by (simp add: delete_collected_example)
  have u: "fst (ObjectStore_dereference ''X@10000''
            (snd (ObjectStore_delete ''X@10000'' (collectProxy 0 exampleStore))))
       = Inl UnknownReference"
    by (simp add: ObjectStore_dereference_def getHandle_def deleted_example_fields)
  have r: "ObjectStore_refObject (PlainObject 0)
        (snd (ObjectStore_delete ''X@10000'' (collectProxy 0 exampleStore)))
       = Inr (Some \<lparr> TOKEN_REF = ''X@10000'', TOKEN_INTERFACES = Some [''IA''] \<rparr>)"
    by (simp add: ObjectStore_refObject_def deleted_example_tryGetHandle deleted_example_fields
        exampleHandle_eq ObjectHandle_objRef_def ObjectHandle_interfaces_def)
  from h l d u r show ?thesis
    by (simp add: deleted_example_fields)
qed

text \<open>
  C3, as the code has it. \<^verbatim>\<open>dereference\<close> of an instance ID without a handle (never
  registered, or deleted by an earlier \<^verbatim>\<open>delete\<close> that returned) fails with
  \<open>UnknownReference\<close>. \<^verbatim>\<open>delete\<close> of such an ID does not fail: it returns, the store is
  unchanged and nothing is emitted.
\<close>

theorem unknown_reference_dereference_fails_delete_returns:
  assumes "handles s iid = None \<or> (\<exists>s0. ObjectStore_delete iid s0 = (Inr (), s))"
  shows "ObjectStore_dereference iid s = (Inl UnknownReference, s)
         \<and> ObjectStore_delete iid s = (Inr (), s)"
proof -
  have "handles s iid = None"
    using assms by (auto simp: ObjectStore_delete_def emit_def split: if_splits)
  then show ?thesis
    by (simp add: ObjectStore_dereference_def getHandle_def ObjectStore_delete_def)
qed

theorem unknown_reference_dereference_fails_delete_returns_witness:
  "ObjectStore_delete ''X@10000'' (collectProxy 0 exampleStore) =
     (Inr (), snd (ObjectStore_delete ''X@10000'' (collectProxy 0 exampleStore)))
   \<and> ObjectStore_dereference ''X@10000'' (snd (ObjectStore_delete ''X@10000'' (collectProxy 0 exampleStore)))
       = (Inl UnknownReference, snd (ObjectStore_delete ''X@10000'' (collectProxy 0 exampleStore)))
   \<and> ObjectStore_delete ''X@10000'' (snd (ObjectStore_delete ''X@10000'' (collectProxy 0 exampleStore)))
       = (Inr (), snd (ObjectStore_delete ''X@10000'' (collectProxy 0 exampleStore)))"
proof -
  have h: "ObjectStore_delete ''X@10000'' (collectProxy 0 exampleStore) =
     (Inr (), snd (ObjectStore_delete ''X@10000'' (collectProxy 0 exampleStore)))"
    by (simp add: delete_collected_example)
  then have "handles (snd (ObjectStore_delete ''X@10000'' (collectProxy 0 exampleStore))) ''X@10000'' = None
     \<or> (\<exists>s0. ObjectStore_delete ''X@10000'' s0 =
          (Inr (), snd (ObjectStore_delete ''X@10000'' (collectProxy 0 exampleStore))))"
    by blast
  from unknown_reference_dereference_fails_delete_returns [OF this] h show ?thesis
    by simp
qed

text \<open>
  C3 as stated fails: \<^verbatim>\<open>delete\<close> of an instance ID that never existed returns normally
  instead of failing with \<open>UnknownReference\<close>.
\<close>

theorem delete_unknown_counterexample:
  "fst (ObjectStore_delete ''Foo@10000'' (ObjectStore_new exampleTypes)) = Inr ()
   \<and> fst (ObjectStore_delete ''Foo@10000'' (ObjectStore_new exampleTypes)) \<noteq> Inl UnknownReference"
  by (simp add: ObjectStore_delete_def ObjectStore_new_def)

text \<open>
  C6. The finalization callback adds the handle's instance ID to the \<open>finalized\<close> set and
  emits \<^verbatim>\<open>releasable\<close>; it changes nothing else, and the collector's two moves leave the
  \<open>handles\<close> map as it is. Through any run without a \<^verbatim>\<open>delete\<close> of an instance ID, that ID
  stays in the \<open>handles\<close> map and \<^verbatim>\<open>dereference\<close> of it returns.
\<close>

theorem finalization_callback_keeps_handles:
  "ObjectStore_onProxyFinalized a s =
     s\<lparr> finalized := Set_add (instanceId (handleHeap s a)) (finalized s),
        emitted := emitted s @ [Releasable (instanceId (handleHeap s a))] \<rparr>
   \<and> handles (collectProxy p s) = handles s
   \<and> handles (runFinalizer p a s) = handles s
   \<and> (handles s iid \<noteq> None \<and> Delete iid \<notin> set xs \<longrightarrow>
        handles (run d xs s) iid \<noteq> None
        \<and> (\<exists>r s'. ObjectStore_dereference iid (run d xs s) = (Inr r, s')))"
  by (simp add: ObjectStore_onProxyFinalized_def Let_def emit_def handles_run_keeps
      dereference_known)

theorem finalization_callback_keeps_handles_witness:
  "handles exampleStore ''X@10000'' \<noteq> None
   \<and> Delete ''X@10000'' \<notin> set [CollectProxy 0, RunFinalizer 0 0]
   \<and> handles (run 10 [CollectProxy 0, RunFinalizer 0 0] exampleStore) ''X@10000'' \<noteq> None
   \<and> (\<exists>r s'. ObjectStore_dereference ''X@10000''
          (run 10 [CollectProxy 0, RunFinalizer 0 0] exampleStore) = (Inr r, s'))"
proof -
  have h: "handles exampleStore ''X@10000'' \<noteq> None"
    by (simp add: exampleStore_eq)
  have n: "Delete ''X@10000'' \<notin> set [CollectProxy 0, RunFinalizer 0 0]"
    by simp
  from finalization_callback_keeps_handles
         [of 0 exampleStore 0 "''X@10000''" "[CollectProxy 0, RunFinalizer 0 0]" 10] h n
  show ?thesis by blast
qed

text \<open>
  C1. Let a run start in a state whose \<open>finalized\<close> set is empty (a new store, or the
  state a call of \<^verbatim>\<open>finalizedInstanceIds\<close> left) and contain no further call of
  \<^verbatim>\<open>finalizedInstanceIds\<close>. Then the call returns exactly the instance IDs the
  finalization callback was called for during the run whose handle has no live proxy now
  (those without a handle among them), each once; it leaves the set empty, so that a call
  right after it returns the empty list; and an ID that \<^verbatim>\<open>dereference\<close> has just given
  a proxy is not returned.
\<close>

theorem finalizedInstanceIds_exact:
  assumes "finalized s0 = []" and "FinalizedInstanceIds \<notin> set xs" and "s = run d xs s0"
  shows "set (fst (ObjectStore_finalizedInstanceIds s)) =
           {iid \<in> set (callbackIds d xs s0). \<not> liveProxyFor s iid}
         \<and> (\<forall>iid \<in> set (callbackIds d xs s0).
               handles s iid = None \<longrightarrow> iid \<in> set (fst (ObjectStore_finalizedInstanceIds s)))
         \<and> distinct (fst (ObjectStore_finalizedInstanceIds s))
         \<and> finalized (snd (ObjectStore_finalizedInstanceIds s)) = []
         \<and> fst (ObjectStore_finalizedInstanceIds (snd (ObjectStore_finalizedInstanceIds s))) = []
         \<and> (\<forall>iid r s1. ObjectStore_dereference iid s = (Inr r, s1) \<longrightarrow>
               iid \<notin> set (fst (ObjectStore_finalizedInstanceIds s1)))"
proof -
  have fin: "set (finalized s) = set (callbackIds d xs s0)"
    using assms finalized_run [of xs d s0] by simp
  have dist: "distinct (finalized s)"
    using assms distinct_finalized_run [of s0 d xs] by simp
  have p1: "set (fst (ObjectStore_finalizedInstanceIds s)) =
           {iid \<in> set (callbackIds d xs s0). \<not> liveProxyFor s iid}"
    using fin by (auto simp: finalizedInstanceIds_result)
  have p2: "\<forall>iid \<in> set (callbackIds d xs s0).
               handles s iid = None \<longrightarrow> iid \<in> set (fst (ObjectStore_finalizedInstanceIds s))"
    using fin by (auto simp: finalizedInstanceIds_result liveProxyFor_def)
  have p3: "distinct (fst (ObjectStore_finalizedInstanceIds s))"
    using dist by (simp add: finalizedInstanceIds_result)
  have p4: "finalized (snd (ObjectStore_finalizedInstanceIds s)) = []"
    by (simp add: ObjectStore_finalizedInstanceIds_def)
  have p5: "fst (ObjectStore_finalizedInstanceIds (snd (ObjectStore_finalizedInstanceIds s))) = []"
    by (simp add: ObjectStore_finalizedInstanceIds_def)
  have p6: "\<forall>iid r s1. ObjectStore_dereference iid s = (Inr r, s1) \<longrightarrow>
               iid \<notin> set (fst (ObjectStore_finalizedInstanceIds s1))"
    by (auto simp: finalizedInstanceIds_result dest: dereference_live)
  from p1 p2 p3 p4 p5 p6 show ?thesis by blast
qed


theorem finalizedInstanceIds_exact_witness:
  "finalized exampleStore = []
   \<and> FinalizedInstanceIds \<notin> set [CollectProxy 0, RunFinalizer 0 0]
   \<and> set (fst (ObjectStore_finalizedInstanceIds
               (run 10 [CollectProxy 0, RunFinalizer 0 0] exampleStore))) = {''X@10000''}
   \<and> fst (ObjectStore_finalizedInstanceIds (snd (ObjectStore_finalizedInstanceIds
               (run 10 [CollectProxy 0, RunFinalizer 0 0] exampleStore)))) = []
   \<and> ''X@10000'' \<notin> set (fst (ObjectStore_finalizedInstanceIds
        (snd (ObjectStore_dereference ''X@10000''
               (run 10 [CollectProxy 0, RunFinalizer 0 0] exampleStore)))))"
proof -
  define s where "s = run 10 [CollectProxy 0, RunFinalizer 0 0] exampleStore"
  have h1: "finalized exampleStore = []"
    by (simp add: exampleStore_eq)
  have h2: "FinalizedInstanceIds \<notin> set [CollectProxy 0, RunFinalizer 0 0]"
    by simp
  note t = finalizedInstanceIds_exact [OF h1 h2 s_def]
  have known: "handles s ''X@10000'' \<noteq> None"
    unfolding s_def by (intro handles_run_keeps) (simp_all add: exampleStore_eq)
  then obtain r s1 where d: "ObjectStore_dereference ''X@10000'' s = (Inr r, s1)"
    using dereference_known by blast
  from t d have "''X@10000'' \<notin> set (fst (ObjectStore_finalizedInstanceIds s1))"
    by blast
  with d have a: "''X@10000'' \<notin> set (fst (ObjectStore_finalizedInstanceIds
        (snd (ObjectStore_dereference ''X@10000'' s))))"
    by simp
  from t have b: "set (fst (ObjectStore_finalizedInstanceIds s)) = {''X@10000''}"
    using exampleRun_callbackIds exampleRun_no_live_proxy by (auto simp: s_def)
  from t have c: "fst (ObjectStore_finalizedInstanceIds (snd (ObjectStore_finalizedInstanceIds s))) = []"
    by blast
  from h1 h2 a b c show ?thesis
    unfolding s_def by blast
qed

text \<open>
  C7, at an instance whose ID was deleted. The first object of class \<^verbatim>\<open>X\<close> is registered,
  its proxy is collected and its ID deleted, so that \<^verbatim>\<open>unmanaged\<close> has been emitted for it;
  the object is then registered again. \<^verbatim>\<open>register\<close> still finds the old handle through
  \<open>instanceInfo\<close>: it returns the deleted ID \<^verbatim>\<open>X@10000\<close> with a new live proxy, takes no
  number from the sequence, puts nothing into the \<open>handles\<close> map and emits no \<^verbatim>\<open>managed\<close>
  event, and \<^verbatim>\<open>dereference\<close> of the ID it returned fails. (For an instance that
  \<open>instanceInfo\<close> does not know, \<^verbatim>\<open>register\<close> does all that the claim says: lemma
  \<open>register_new_state\<close>.)
\<close>

theorem register_after_delete_stale_id:
  "emitted (snd (ObjectStore_delete ''X@10000'' (collectProxy 0 exampleStore)))
       = [Managed ''X@10000'', Unmanaged ''X@10000'']
   \<and> fst (ObjectStore_register 10 exampleOptions
          (snd (ObjectStore_delete ''X@10000'' (collectProxy 0 exampleStore)))) =
     Inr \<lparr> m_instance = HandleProxy (Suc 0) (PlainObject 0),
           m_objRef = \<lparr> TOKEN_REF = ''X@10000'', TOKEN_INTERFACES = Some [''IA''] \<rparr> \<rparr>
   \<and> idSequence (snd (ObjectStore_register 10 exampleOptions
          (snd (ObjectStore_delete ''X@10000'' (collectProxy 0 exampleStore)))))
       = idSequence (snd (ObjectStore_delete ''X@10000'' (collectProxy 0 exampleStore)))
   \<and> handles (snd (ObjectStore_register 10 exampleOptions
          (snd (ObjectStore_delete ''X@10000'' (collectProxy 0 exampleStore))))) ''X@10000'' = None
   \<and> emitted (snd (ObjectStore_register 10 exampleOptions
          (snd (ObjectStore_delete ''X@10000'' (collectProxy 0 exampleStore)))))
       = [Managed ''X@10000'', Unmanaged ''X@10000'']
   \<and> hasProxy (snd (ObjectStore_register 10 exampleOptions
          (snd (ObjectStore_delete ''X@10000'' (collectProxy 0 exampleStore)))))
        (handleHeap (snd (ObjectStore_register 10 exampleOptions
          (snd (ObjectStore_delete ''X@10000'' (collectProxy 0 exampleStore))))) 0)
   \<and> fst (ObjectStore_dereference ''X@10000'' (snd (ObjectStore_register 10 exampleOptions
          (snd (ObjectStore_delete ''X@10000'' (collectProxy 0 exampleStore))))))
       = Inl UnknownReference"
proof -
  let ?s = "snd (ObjectStore_delete ''X@10000'' (collectProxy 0 exampleStore))"
  have reg: "ObjectStore_register 10 exampleOptions ?s =
      (Inr \<lparr> m_instance = HandleProxy (Suc 0) (PlainObject 0),
             m_objRef = \<lparr> TOKEN_REF = ''X@10000'', TOKEN_INTERFACES = Some [''IA''] \<rparr> \<rparr>,
       ?s\<lparr> handleHeap := (handleHeap exampleStore)
               (0 := (handleHeap exampleStore 0)\<lparr> proxyReference := Some (Suc 0) \<rparr>),
           nextProxy := Suc (Suc 0),
           liveProxies := {Suc 0},
           finalizationRegistry := finalizationRegistry ?s @ [(Suc 0, 0)] \<rparr>)"
    by (simp add: ObjectStore_register_def exampleOptions_def deleted_example_tryGetHandle
        deleted_example_fields exampleMerge_same)
      (simp add: exampleHandle_eq ObjectHandle_proxy_def mintProxy_def deleted_example_fields
        Let_def ObjectHandle_objRef_def ObjectHandle_interfaces_def)
  show ?thesis
    unfolding reg
    by (simp add: deleted_example_fields hasProxy_def ObjectStore_dereference_def getHandle_def)
qed

text \<open>
  C8, as the code has it. The numbers of a sequence are doubles. A sequence made with
  \<open>origin \<ge> 0\<close> and \<open>stride > 0\<close> returns \<open>origin + n * stride\<close> on its \<open>(n+1)\<close>-th call of
  \<^verbatim>\<open>next()\<close> as long as that number is at most \<open>2^53\<close>; the defaults are 10000 and 1, and
  they are what a new store uses. In a run of a store whose sequence has a positive
  stride and stands at \<open>a \<ge> 0\<close>, and which is short enough for the sequence to stay at
  most \<open>2^53\<close> if every operation advanced it, whatever deletions and other steps the run
  has, the registrations that make a new handle return instance IDs \<open>classFQN@n\<close> whose
  numbers strictly increase and which are pairwise distinct, so that no ID comes back;
  and the first registration of a new store returns \<open>classFQN@10000\<close>.
\<close>

theorem instance_ids_distinct_increasing:
  "(0 \<le> origin \<and> 0 < strd \<and> origin + int n * strd \<le> 2 ^ 53 \<longrightarrow>
      Sequence_new (Num origin) (Num strd) = Inr \<lparr> stride = strd, nextValue = Num origin \<rparr>
      \<and> Sequence_nth_call n \<lparr> stride = strd, nextValue = Num origin \<rparr>
           = Num (origin + int n * strd))
   \<and> Sequence_new (Num 10000) (Num 1) = Inr Sequence_default
   \<and> idSequence (ObjectStore_new r) = Sequence_default
   \<and> (0 < stride (idSequence s) \<and> nextValue (idSequence s) = Num a \<and> 0 \<le> a
        \<and> a + int (length xs) * stride (idSequence s) \<le> 2 ^ 53 \<longrightarrow>
        sorted_wrt numLess (map snd (newIds d xs s))
        \<and> distinct (map fst (newIds d xs s))
        \<and> (\<forall>(iid, v) \<in> set (newIds d xs s).
              \<exists>k cls. v = Num k \<and> a \<le> k \<and> k \<le> 2 ^ 53 \<and> iid = cls @ ''@'' @ numToString v))
   \<and> (fst (ObjectStore_register d opts (ObjectStore_new r)) = Inr m \<longrightarrow>
        TOKEN_REF (m_objRef m) = o_classFQN opts @ ''@10000'')"
proof -
  have a: "0 \<le> origin \<and> 0 < strd \<and> origin + int n * strd \<le> 2 ^ 53 \<longrightarrow>
      Sequence_new (Num origin) (Num strd) = Inr \<lparr> stride = strd, nextValue = Num origin \<rparr>
      \<and> Sequence_nth_call n \<lparr> stride = strd, nextValue = Num origin \<rparr>
           = Num (origin + int n * strd)"
  proof
    assume h: "0 \<le> origin \<and> 0 < strd \<and> origin + int n * strd \<le> 2 ^ 53"
    note h1 = h [THEN conjunct1] and h2 = h [THEN conjunct2, THEN conjunct1]
      and h3 = h [THEN conjunct2, THEN conjunct2]
    let ?q = "\<lparr> stride = strd, nextValue = Num origin \<rparr>"
    have 1: "Sequence_new (Num origin) (Num strd) = Inr ?q"
      using h1 h2 by (simp add: Sequence_new_def)
    have nv: "nextValue ?q = Num origin" and st: "stride ?q = strd" by simp_all
    have s0: "0 \<le> stride ?q" using h2 by simp
    have bd: "origin + int n * stride ?q \<le> 2 ^ 53" unfolding st by (rule h3)
    from Sequence_nth_call_eq [OF nv h1 s0 bd]
    have 2: "Sequence_nth_call n ?q = Num (origin + int n * strd)" unfolding st .
    from 1 2 show "Sequence_new (Num origin) (Num strd) = Inr ?q
      \<and> Sequence_nth_call n ?q = Num (origin + int n * strd)" by (rule conjI)
  qed
  have b: "Sequence_new (Num 10000) (Num 1) = Inr Sequence_default"
    by (simp add: Sequence_new_def Sequence_default_def)
  have c: "idSequence (ObjectStore_new r) = Sequence_default"
    by (simp add: ObjectStore_new_def)
  have d: "0 < stride (idSequence s) \<and> nextValue (idSequence s) = Num a \<and> 0 \<le> a
        \<and> a + int (length xs) * stride (idSequence s) \<le> 2 ^ 53 \<longrightarrow>
        sorted_wrt numLess (map snd (newIds d xs s))
        \<and> distinct (map fst (newIds d xs s))
        \<and> (\<forall>(iid, v) \<in> set (newIds d xs s).
              \<exists>k cls. v = Num k \<and> a \<le> k \<and> k \<le> 2 ^ 53 \<and> iid = cls @ ''@'' @ numToString v)"
  proof
    assume h: "0 < stride (idSequence s) \<and> nextValue (idSequence s) = Num a \<and> 0 \<le> a
        \<and> a + int (length xs) * stride (idSequence s) \<le> 2 ^ 53"
    note h1 = h [THEN conjunct1] and h2 = h [THEN conjunct2, THEN conjunct1]
      and h3 = h [THEN conjunct2, THEN conjunct2, THEN conjunct1]
      and h4 = h [THEN conjunct2, THEN conjunct2, THEN conjunct2]
    from newIds_facts [OF h1 h2 h3 h4, of d]
    show "sorted_wrt numLess (map snd (newIds d xs s))
        \<and> distinct (map fst (newIds d xs s))
        \<and> (\<forall>(iid, v) \<in> set (newIds d xs s).
              \<exists>k cls. v = Num k \<and> a \<le> k \<and> k \<le> 2 ^ 53 \<and> iid = cls @ ''@'' @ numToString v)" .
  qed
  have e: "fst (ObjectStore_register d opts (ObjectStore_new r)) = Inr m \<longrightarrow>
        TOKEN_REF (m_objRef m) = o_classFQN opts @ ''@10000''"
    by (rule impI) (rule first_id_of_new_store)
  show ?thesis
    apply (intro conjI)
        apply (rule a)
       apply (rule b)
      apply (rule c)
     apply (rule d)
    apply (rule e)
    done
qed

theorem instance_ids_distinct_increasing_witness:
  "Sequence_new (Num 10000) (Num 1) = Inr \<lparr> stride = 1, nextValue = Num 10000 \<rparr>
   \<and> Sequence_nth_call 2 \<lparr> stride = 1, nextValue = Num 10000 \<rparr> = Num 10002
   \<and> 0 < stride (idSequence (ObjectStore_new exampleTypes))
   \<and> nextValue (idSequence (ObjectStore_new exampleTypes)) = Num 10000
   \<and> newIds 10 [Register exampleOptions, CollectProxy 0, Delete ''X@10000'', Register exampleOptions2]
        (ObjectStore_new exampleTypes) = [(''X@10000'', Num 10000), (''X@10001'', Num 10001)]
   \<and> sorted_wrt numLess (map snd (newIds 10
        [Register exampleOptions, CollectProxy 0, Delete ''X@10000'', Register exampleOptions2]
        (ObjectStore_new exampleTypes)))
   \<and> distinct (map fst (newIds 10
        [Register exampleOptions, CollectProxy 0, Delete ''X@10000'', Register exampleOptions2]
        (ObjectStore_new exampleTypes)))
   \<and> fst (ObjectStore_register 10 exampleOptions (ObjectStore_new exampleTypes)) =
        Inr \<lparr> m_instance = HandleProxy 0 (PlainObject 0),
              m_objRef = \<lparr> TOKEN_REF = ''X@10000'', TOKEN_INTERFACES = Some [''IA''] \<rparr> \<rparr>"
proof -
  let ?xs = "[Register exampleOptions, CollectProxy 0, Delete ''X@10000'', Register exampleOptions2]"
  have h2: "0 < stride (idSequence (ObjectStore_new exampleTypes))"
    and h3: "nextValue (idSequence (ObjectStore_new exampleTypes)) = Num 10000"
    by (simp_all add: ObjectStore_new_def Sequence_default_def)
  have h4: "fst (ObjectStore_register 10 exampleOptions (ObjectStore_new exampleTypes)) =
        Inr \<lparr> m_instance = HandleProxy 0 (PlainObject 0),
              m_objRef = \<lparr> TOKEN_REF = ''X@10000'', TOKEN_INTERFACES = Some [''IA''] \<rparr> \<rparr>"
    by (simp add: exampleStore_register)
  have h5: "(10000::int) + int (length ?xs) * stride (idSequence (ObjectStore_new exampleTypes))
              \<le> 2 ^ 53"
    by (simp add: ObjectStore_new_def Sequence_default_def)
  note t = instance_ids_distinct_increasing
    [where origin = 10000 and strd = 1 and n = 2 and a = 10000
       and r = exampleTypes and s = "ObjectStore_new exampleTypes" and d = 10
       and xs = ?xs and opts = exampleOptions]
  from t [THEN conjunct1]
  have n: "Sequence_new (Num 10000) (Num 1) = Inr \<lparr> stride = 1, nextValue = Num 10000 \<rparr>
     \<and> Sequence_nth_call 2 \<lparr> stride = 1, nextValue = Num 10000 \<rparr> = Num 10002" by simp
  have h0: "(0::int) \<le> 10000" by simp
  from t [THEN conjunct2, THEN conjunct2, THEN conjunct2, THEN conjunct1] h2 h3 h0 h5
  have s: "sorted_wrt numLess (map snd (newIds 10 ?xs (ObjectStore_new exampleTypes)))"
    and d: "distinct (map fst (newIds 10 ?xs (ObjectStore_new exampleTypes)))"
    by blast+
  from n h2 h3 exampleRun_newIds s d h4 show ?thesis by blast
qed

text \<open>
  C8 as stated fails: from the origin \<open>2^53\<close>, itself a double, with stride 1 the second
  call of \<^verbatim>\<open>next()\<close> returns \<open>2^53\<close> again, not \<open>2^53 + 1\<close>, since the sum is rounded to a
  double.
\<close>

theorem sequence_repeats_counterexample:
  "isDouble 9007199254740992
   \<and> Sequence_new (Num 9007199254740992) (Num 1)
       = Inr \<lparr> stride = 1, nextValue = Num 9007199254740992 \<rparr>
   \<and> Sequence_nth_call 1 \<lparr> stride = 1, nextValue = Num 9007199254740992 \<rparr>
       = Num 9007199254740992
   \<and> Num 9007199254740992 \<noteq> Num (9007199254740992 + int 1 * 1)"
proof -
  have "isDouble 9007199254740992"
    unfolding isDouble_def using toNumber_small [of 9007199254740992] by simp
  then show ?thesis
    by (simp add: Sequence_new_def Sequence_next_def numPlus_tie)
qed

text \<open>
  C5, as the code has it. Let the constructor return a handle for the class and the
  interfaces \<open>S\<close>, and let a series of \<^verbatim>\<open>mergeInterfaces\<close> calls, each of which returned,
  have been made on it. Then the declared and provided sets of the handle are disjoint;
  the provided set is the closure of the class together with every interface that one of
  the interfaces declared so far (\<open>S\<close> and the arguments of the merges) extends, directly
  or through others; and so declared \<open>\<union>\<close> provided is the closure of the class, the
  interfaces declared so far, and their ancestors. Merging \<^verbatim>\<open>[IB, IA]\<close>, where \<^verbatim>\<open>IB\<close> extends
  \<^verbatim>\<open>IA\<close>, into the handle registered with \<^verbatim>\<open>[IA]\<close> leaves \<^verbatim>\<open>interfaces()\<close> returning
  \<^verbatim>\<open>["IB"]\<close>. (What a merge that throws leaves behind: lemmas \<open>merge_throw_example\<close>,
  \<open>merge_after_throw_example\<close>.)
\<close>

theorem interfaces_minimised:
  "(ObjectHandle_new d r sq cls inst S = (Inr h0, sq') \<and> mergeAll d r merges h0 = Some h \<longrightarrow>
      set (declaredInterfaces h) \<inter> set (providedInterfaces h) = {}
      \<and> set (providedInterfaces h) =
          classClosure r cls \<union> ancestors r (set S \<union> \<Union>(set ` set merges))
      \<and> set (declaredInterfaces h) \<union> set (providedInterfaces h) =
          classClosure r cls \<union> (set S \<union> \<Union>(set ` set merges))
            \<union> ancestors r (set S \<union> \<Union>(set ` set merges)))
   \<and> ObjectHandle_interfaces (fst (ObjectHandle_mergeInterfaces 10 exampleTypes
        [''IB'', ''IA''] (handleHeap exampleStore 0))) = [''IB'']"
proof -
  have a: "ObjectHandle_new d r sq cls inst S = (Inr h0, sq') \<and> mergeAll d r merges h0 = Some h \<longrightarrow>
      set (declaredInterfaces h) \<inter> set (providedInterfaces h) = {}
      \<and> set (providedInterfaces h) =
          classClosure r cls \<union> ancestors r (set S \<union> \<Union>(set ` set merges))
      \<and> set (declaredInterfaces h) \<union> set (providedInterfaces h) =
          classClosure r cls \<union> (set S \<union> \<Union>(set ` set merges))
            \<union> ancestors r (set S \<union> \<Union>(set ` set merges))"
  proof
    assume "ObjectHandle_new d r sq cls inst S = (Inr h0, sq') \<and> mergeAll d r merges h0 = Some h"
    then have n: "ObjectHandle_new d r sq cls inst S = (Inr h0, sq')"
      and m: "mergeAll d r merges h0 = Some h" by simp_all
    note f = ObjectHandle_new_interfaces [OF n]
    from InterfaceCollection_new_classClosure [OF f(1)]
    have cc: "set (fst (InterfaceCollection_new d r cls)) = classClosure r cls" .
    from f(4) have dj: "set (declaredInterfaces h0) \<inter> set (providedInterfaces h0) = {}" by blast
    from f(3) cc have p0: "set (providedInterfaces h0) = classClosure r cls \<union> ancestors r (set S)"
      by simp
    from f(4) p0 have u0: "set (declaredInterfaces h0) \<union> set (providedInterfaces h0) =
        classClosure r cls \<union> set S \<union> ancestors r (set S)" by blast
    note g = mergeAll_interfaces [OF f(2) dj m]
    note g2 = g [THEN conjunct2, THEN conjunct1]
      and g3 = g [THEN conjunct2, THEN conjunct2, THEN conjunct1]
      and g4 = g [THEN conjunct2, THEN conjunct2, THEN conjunct2]
    have 2: "set (providedInterfaces h) =
          classClosure r cls \<union> ancestors r (set S \<union> \<Union>(set ` set merges))"
      unfolding g3 p0 ancestors_Un by blast
    have 3: "set (declaredInterfaces h) \<union> set (providedInterfaces h) =
          classClosure r cls \<union> (set S \<union> \<Union>(set ` set merges))
            \<union> ancestors r (set S \<union> \<Union>(set ` set merges))"
      unfolding g4 u0 ancestors_Un by blast
    from g2 2 3 show "set (declaredInterfaces h) \<inter> set (providedInterfaces h) = {}
      \<and> set (providedInterfaces h) =
          classClosure r cls \<union> ancestors r (set S \<union> \<Union>(set ` set merges))
      \<and> set (declaredInterfaces h) \<union> set (providedInterfaces h) =
          classClosure r cls \<union> (set S \<union> \<Union>(set ` set merges))
            \<union> ancestors r (set S \<union> \<Union>(set ` set merges))" by blast
  qed
  have c: "ObjectHandle_interfaces (fst (ObjectHandle_mergeInterfaces 10 exampleTypes
        [''IB'', ''IA''] (handleHeap exampleStore 0))) = [''IB'']"
    by (simp add: exampleMerge ObjectHandle_interfaces_def)
  from a c show ?thesis by blast
qed

theorem interfaces_minimised_witness:
  "ObjectHandle_new 10 exampleTypes Sequence_default ''X'' (PlainObject 0) [''IA''] =
     (Inr \<lparr> classFQN = ''X'', instanceId = ''X@10000'', object = PlainObject 0,
            proxyReference = None, declaredInterfaces = [''IA''],
            providedInterfaces = [] \<rparr>,
      \<lparr> stride = 1, nextValue = Num 10001 \<rparr>)
   \<and> mergeAll 10 exampleTypes [[''IB'', ''IA'']]
        \<lparr> classFQN = ''X'', instanceId = ''X@10000'', object = PlainObject 0,
          proxyReference = None, declaredInterfaces = [''IA''],
          providedInterfaces = [] \<rparr> =
      Some \<lparr> classFQN = ''X'', instanceId = ''X@10000'', object = PlainObject 0,
             proxyReference = None, declaredInterfaces = [''IB''],
             providedInterfaces = [''IA''] \<rparr>
   \<and> set [''IB''] \<inter> set [''IA''] = ({} :: string set)
   \<and> set [''IA''] =
       classClosure exampleTypes ''X''
         \<union> ancestors exampleTypes (set [''IA''] \<union> \<Union>(set ` set [[''IB'', ''IA'']]))
   \<and> set [''IB''] \<union> set [''IA''] =
       classClosure exampleTypes ''X'' \<union> (set [''IA''] \<union> \<Union>(set ` set [[''IB'', ''IA'']]))
         \<union> ancestors exampleTypes (set [''IA''] \<union> \<Union>(set ` set [[''IB'', ''IA'']]))"
proof -
  let ?ha = "\<lparr> classFQN = ''X'', instanceId = ''X@10000'', object = PlainObject 0,
            proxyReference = None, declaredInterfaces = [''IA''],
            providedInterfaces = [] \<rparr>"
  let ?hb = "\<lparr> classFQN = ''X'', instanceId = ''X@10000'', object = PlainObject 0,
            proxyReference = None, declaredInterfaces = [''IB''],
            providedInterfaces = [''IA''] \<rparr>"
  have m: "mergeAll 10 exampleTypes [[''IB'', ''IA'']] ?ha = Some ?hb"
    apply (simp add: ObjectHandle_mergeInterfaces_def)
    apply (simp add: exampleTypes_def isInterfaceType_def Set_add_def
        deleteProvided_def Set_delete_def numeral_nat)
    done
  note t = interfaces_minimised [where d = 10 and r = exampleTypes and sq = Sequence_default
      and cls = "''X''" and inst = "PlainObject 0" and S = "[''IA'']" and ?h0.0 = ?ha
      and sq' = "\<lparr> stride = 1, nextValue = Num 10001 \<rparr>" and merges = "[[''IB'', ''IA'']]"
      and h = ?hb]
  from mp [OF t [THEN conjunct1] conjI [OF exampleHandle_new m]]
  have c: "set (declaredInterfaces ?hb) \<inter> set (providedInterfaces ?hb) = {}
      \<and> set (providedInterfaces ?hb) =
          classClosure exampleTypes ''X''
            \<union> ancestors exampleTypes (set [''IA''] \<union> \<Union>(set ` set [[''IB'', ''IA'']]))
      \<and> set (declaredInterfaces ?hb) \<union> set (providedInterfaces ?hb) =
          classClosure exampleTypes ''X'' \<union> (set [''IA''] \<union> \<Union>(set ` set [[''IB'', ''IA'']]))
            \<union> ancestors exampleTypes (set [''IA''] \<union> \<Union>(set ` set [[''IB'', ''IA'']]))" .
  have c1: "set [''IB''] \<inter> set [''IA''] = ({} :: string set)" by simp
  from c have c2: "set [''IA''] =
       classClosure exampleTypes ''X''
         \<union> ancestors exampleTypes (set [''IA''] \<union> \<Union>(set ` set [[''IB'', ''IA'']]))"
    by simp
  from c have c3: "set [''IB''] \<union> set [''IA''] =
       classClosure exampleTypes ''X'' \<union> (set [''IA''] \<union> \<Union>(set ` set [[''IB'', ''IA'']]))
         \<union> ancestors exampleTypes (set [''IA''] \<union> \<Union>(set ` set [[''IB'', ''IA'']]))"
    by simp
  show ?thesis
    apply (intro conjI)
        apply (rule exampleHandle_new)
       apply (rule m)
      apply (rule c1)
     apply (rule c2)
    apply (rule c3)
    done
qed

text \<open>
  C5 as stated fails: a handle of class \<^verbatim>\<open>X\<close>, whose closure is empty, constructed with
  \<open>S = [IB]\<close> has declared \<open>\<union>\<close> provided \<open>= {IB, IA}\<close>, not closure \<open>\<union> S = {IB}\<close>.
\<close>

theorem closure_union_counterexample:
  "fst (ObjectHandle_new 10 exampleTypes Sequence_default ''X'' (PlainObject 0) [''IB'']) =
     Inr \<lparr> classFQN = ''X'', instanceId = ''X@10000'', object = PlainObject 0,
           proxyReference = None, declaredInterfaces = [''IB''],
           providedInterfaces = [''IA''] \<rparr>
   \<and> fst (InterfaceCollection_new 10 exampleTypes ''X'') = []
   \<and> set [''IB''] \<union> set [''IA''] \<noteq> set ([] :: string list) \<union> set [''IB'']"
  by (simp add: exampleHandleIB_new exampleClosure)


text \<open>
  C4, at the proxy that \<^verbatim>\<open>register\<close> returned for a first object. The handler's trap
  reports the hidden property, with the object as its value, as non-configurable; the
  object itself has no such property, so the engine's check of the trap's result fails
  and \<^verbatim>\<open>Object.getOwnPropertyDescriptor\<close> throws \<^verbatim>\<open>TypeError\<close>. Hence \<^verbatim>\<open>realObject\<close> of the
  proxy throws, and with it \<^verbatim>\<open>refObject\<close> and \<^verbatim>\<open>register\<close> of the proxy, which leave the store
  as it was; \<^verbatim>\<open>refObject\<close> of the object itself returns its reference.
\<close>

theorem register_proxy_throws:
  "fst (ObjectStore_register 10 exampleOptions (ObjectStore_new exampleTypes)) =
     Inr \<lparr> m_instance = HandleProxy 0 (PlainObject 0),
           m_objRef = \<lparr> TOKEN_REF = ''X@10000'', TOKEN_INTERFACES = Some [''IA''] \<rparr> \<rparr>
   \<and> snd (ObjectStore_register 10 exampleOptions (ObjectStore_new exampleTypes)) = exampleStore
   \<and> RealObjectProxyHandler_getOwnPropertyDescriptor (PlainObject 0) =
       Some \<lparr> configurable = False, enumerable = False, pvalue = PlainObject 0, writable = False \<rparr>
   \<and> getOwnPropertyDescriptor_realObjectSymbol (PlainObject 0) = Inr None
   \<and> getOwnPropertyDescriptor_realObjectSymbol (HandleProxy 0 (PlainObject 0)) = Inl TypeError
   \<and> realObject (HandleProxy 0 (PlainObject 0)) = Inl TypeError
   \<and> ObjectStore_refObject (HandleProxy 0 (PlainObject 0)) exampleStore = Inl TypeError
   \<and> ObjectStore_refObject (PlainObject 0) exampleStore =
       Inr (Some \<lparr> TOKEN_REF = ''X@10000'', TOKEN_INTERFACES = Some [''IA''] \<rparr>)
   \<and> ObjectStore_register 10
        \<lparr> o_classFQN = ''X'', o_instance = Some (HandleProxy 0 (PlainObject 0)),
          o_interfaceFQNs = [] \<rparr> exampleStore = (Inl TypeError, exampleStore)"
proof -
  have 1: "fst (ObjectStore_register 10 exampleOptions (ObjectStore_new exampleTypes)) =
     Inr \<lparr> m_instance = HandleProxy 0 (PlainObject 0),
           m_objRef = \<lparr> TOKEN_REF = ''X@10000'', TOKEN_INTERFACES = Some [''IA''] \<rparr> \<rparr>"
    and 2: "snd (ObjectStore_register 10 exampleOptions (ObjectStore_new exampleTypes)) = exampleStore"
    by (simp_all add: exampleStore_register)
  have 3: "RealObjectProxyHandler_getOwnPropertyDescriptor (PlainObject 0) =
       Some \<lparr> configurable = False, enumerable = False, pvalue = PlainObject 0, writable = False \<rparr>"
    by (simp add: RealObjectProxyHandler_getOwnPropertyDescriptor_def)
  have 4: "getOwnPropertyDescriptor_realObjectSymbol (PlainObject 0) = Inr None"
    by simp
  have 5: "getOwnPropertyDescriptor_realObjectSymbol (HandleProxy 0 (PlainObject 0)) = Inl TypeError"
    by (simp add: Proxy_GetOwnProperty_def validatePropertyDescriptor_def
        RealObjectProxyHandler_getOwnPropertyDescriptor_def)
  have 6: "realObject (HandleProxy 0 (PlainObject 0)) = Inl TypeError"
    by (simp add: realObject_eq)
  have 7: "ObjectStore_refObject (HandleProxy 0 (PlainObject 0)) exampleStore = Inl TypeError"
    by (simp add: ObjectStore_refObject_def tryGetHandle_def 6)
  have 8: "ObjectStore_refObject (PlainObject 0) exampleStore =
       Inr (Some \<lparr> TOKEN_REF = ''X@10000'', TOKEN_INTERFACES = Some [''IA''] \<rparr>)"
    by (simp add: ObjectStore_refObject_def tryGetHandle_def realObject_def exampleStore_eq
        ObjectHandle_objRef_def ObjectHandle_interfaces_def)
  have 9: "ObjectStore_register 10
        \<lparr> o_classFQN = ''X'', o_instance = Some (HandleProxy 0 (PlainObject 0)),
          o_interfaceFQNs = [] \<rparr> exampleStore = (Inl TypeError, exampleStore)"
    by (simp add: ObjectStore_register_def tryGetHandle_def 6)
  from 1 2 3 4 5 6 7 8 9 show ?thesis by blast
qed


text \<open>
  C9, as the code has it. On an extensible type object without a marker, \<^verbatim>\<open>registerType\<close>
  installs the FQN as a property that is neither enumerable, configurable nor writable.
  On a type object that has the marker, a call with another FQN throws \<^verbatim>\<open>TypeError\<close> and a
  call with the same FQN returns; both leave the heap as it was, so the first FQN stays.
  For a constructor whose prototype chain is \<open>ps\<close>, \<^verbatim>\<open>typeFQN\<close> returns the FQN of the
  first marker among the constructor and its prototypes, in that order, and \<^verbatim>\<open>undefined\<close>
  when none of them has one.
\<close>

theorem fqn_marker:
  "(extensible (heap ty) \<and> typeInfo (heap ty) = None \<longrightarrow>
      ObjectStore_registerType ty fqn heap =
        (Inr (), heap(ty := (heap ty)\<lparr> typeInfo :=
           Some \<lparr> configurable = False, enumerable = False, pvalue = fqn, writable = False \<rparr> \<rparr>)))
   \<and> (typeInfo (heap ty) =
         Some \<lparr> configurable = False, enumerable = False, pvalue = fqn, writable = False \<rparr> \<longrightarrow>
      ObjectStore_registerType ty fqn' heap =
        (if fqn' = fqn then (Inr (), heap) else (Inl TypeError, heap)))
   \<and> (prototypeChain heap ctor ps \<longrightarrow>
      ObjectStore_typeFQN heap ctor =
        Some (firstMarker (map (\<lambda>b. typeInfo (heap b)) (ctor # ps))))"
proof -
  have a: "extensible (heap ty) \<and> typeInfo (heap ty) = None \<longrightarrow>
      ObjectStore_registerType ty fqn heap =
        (Inr (), heap(ty := (heap ty)\<lparr> typeInfo :=
           Some \<lparr> configurable = False, enumerable = False, pvalue = fqn, writable = False \<rparr> \<rparr>))"
    by (simp add: ObjectStore_registerType_def Object_defineProperty_def
        validatePropertyDescriptor_def)
  have b: "typeInfo (heap ty) =
         Some \<lparr> configurable = False, enumerable = False, pvalue = fqn, writable = False \<rparr> \<longrightarrow>
      ObjectStore_registerType ty fqn' heap =
        (if fqn' = fqn then (Inr (), heap) else (Inl TypeError, heap))"
  proof
    assume m: "typeInfo (heap ty) =
         Some \<lparr> configurable = False, enumerable = False, pvalue = fqn, writable = False \<rparr>"
    then have "(heap ty)\<lparr> typeInfo :=
         Some \<lparr> configurable = False, enumerable = False, pvalue = fqn, writable = False \<rparr> \<rparr> = heap ty"
      by (cases "heap ty") simp
    then have "heap(ty := (heap ty)\<lparr> typeInfo :=
         Some \<lparr> configurable = False, enumerable = False, pvalue = fqn, writable = False \<rparr> \<rparr>) = heap"
      by simp
    with m show "ObjectStore_registerType ty fqn' heap =
        (if fqn' = fqn then (Inr (), heap) else (Inl TypeError, heap))"
      by (simp add: ObjectStore_registerType_def Object_defineProperty_def
          validatePropertyDescriptor_def)
  qed
  have c: "prototypeChain heap ctor ps \<longrightarrow>
      ObjectStore_typeFQN heap ctor =
        Some (firstMarker (map (\<lambda>b. typeInfo (heap b)) (ctor # ps)))"
    using Get_typeInfo_chain [of heap ctor ps] by (simp add: ObjectStore_typeFQN_def)
  from a b c show ?thesis by blast
qed

theorem fqn_marker_witness:
  "extensible (exampleTypeHeap 0) \<and> typeInfo (exampleTypeHeap 0) = None
   \<and> fst (ObjectStore_registerType 0 ''a.B'' exampleTypeHeap) = Inr ()
   \<and> typeInfo (snd (ObjectStore_registerType 0 ''a.B'' exampleTypeHeap) 0) =
        Some \<lparr> configurable = False, enumerable = False, pvalue = ''a.B'', writable = False \<rparr>
   \<and> ObjectStore_registerType 0 ''a.C'' (snd (ObjectStore_registerType 0 ''a.B'' exampleTypeHeap)) =
        (Inl TypeError, snd (ObjectStore_registerType 0 ''a.B'' exampleTypeHeap))
   \<and> ObjectStore_registerType 0 ''a.B'' (snd (ObjectStore_registerType 0 ''a.B'' exampleTypeHeap)) =
        (Inr (), snd (ObjectStore_registerType 0 ''a.B'' exampleTypeHeap))
   \<and> prototypeChain (snd (ObjectStore_registerType 0 ''a.B'' exampleTypeHeap)) (Suc 0) [0]
   \<and> ObjectStore_typeFQN (snd (ObjectStore_registerType 0 ''a.B'' exampleTypeHeap)) (Suc 0) =
        Some (Some ''a.B'')
   \<and> prototypeChain exampleTypeHeap (Suc 0) [0]
   \<and> ObjectStore_typeFQN exampleTypeHeap (Suc 0) = Some None"
proof -
  let ?h1 = "snd (ObjectStore_registerType 0 ''a.B'' exampleTypeHeap)"
  have e: "extensible (exampleTypeHeap 0) \<and> typeInfo (exampleTypeHeap 0) = None"
    by (simp add: exampleTypeHeap_def)
  from fqn_marker [where heap = exampleTypeHeap and ty = 0 and fqn = "''a.B''", THEN conjunct1] e
  have r: "ObjectStore_registerType 0 ''a.B'' exampleTypeHeap =
        (Inr (), exampleTypeHeap(0 := (exampleTypeHeap 0)\<lparr> typeInfo :=
           Some \<lparr> configurable = False, enumerable = False, pvalue = ''a.B'', writable = False \<rparr> \<rparr>))"
    by blast
  have 1: "fst (ObjectStore_registerType 0 ''a.B'' exampleTypeHeap) = Inr ()"
    by (simp add: r)
  have 2: "typeInfo (?h1 0) =
        Some \<lparr> configurable = False, enumerable = False, pvalue = ''a.B'', writable = False \<rparr>"
    by (simp add: r)
  from fqn_marker [where heap = ?h1 and ty = 0 and fqn = "''a.B''" and fqn' = "''a.C''",
      THEN conjunct2, THEN conjunct1] 2
  have 3: "ObjectStore_registerType 0 ''a.C'' ?h1 = (Inl TypeError, ?h1)"
    by simp
  from fqn_marker [where heap = ?h1 and ty = 0 and fqn = "''a.B''" and fqn' = "''a.B''",
      THEN conjunct2, THEN conjunct1] 2
  have 4: "ObjectStore_registerType 0 ''a.B'' ?h1 = (Inr (), ?h1)"
    by simp
  have 5: "prototypeChain ?h1 (Suc 0) [0]"
    by (simp add: r exampleTypeHeap_def)
  from fqn_marker [where heap = ?h1 and ctor = "Suc 0" and ps = "[0]",
      THEN conjunct2, THEN conjunct2] 5
  have 6: "ObjectStore_typeFQN ?h1 (Suc 0) = Some (Some ''a.B'')"
    by (simp add: r exampleTypeHeap_def)
  have 7: "prototypeChain exampleTypeHeap (Suc 0) [0]"
    by (simp add: exampleTypeHeap_def)
  from fqn_marker [where heap = exampleTypeHeap and ctor = "Suc 0" and ps = "[0]",
      THEN conjunct2, THEN conjunct2] 7
  have 8: "ObjectStore_typeFQN exampleTypeHeap (Suc 0) = Some None"
    by (simp add: exampleTypeHeap_def)
  from e 1 2 3 4 5 6 7 8 show ?thesis by blast
qed

text \<open>
  C9 as stated fails: a second \<^verbatim>\<open>registerType\<close> of the same type object with the same FQN
  returns normally instead of throwing \<^verbatim>\<open>TypeError\<close>.
\<close>

theorem registerType_twice_counterexample:
  "fst (ObjectStore_registerType 0 ''a.B'' exampleTypeHeap) = Inr ()
   \<and> fst (ObjectStore_registerType 0 ''a.B''
           (snd (ObjectStore_registerType 0 ''a.B'' exampleTypeHeap))) = Inr ()
   \<and> fst (ObjectStore_registerType 0 ''a.B''
           (snd (ObjectStore_registerType 0 ''a.B'' exampleTypeHeap))) \<noteq> Inl TypeError"
  by (simp add: ObjectStore_registerType_def Object_defineProperty_def
      validatePropertyDescriptor_def exampleTypeHeap_def)


text \<open>
  C10, as the code has it. In any state the host's table reaches from a new table, every
  instance ID that \<^verbatim>\<open>getDroppedReferences\<close> returns is gone from the id-to-handle map,
  no reference maps to it any more, and \<^verbatim>\<open>getObject\<close> of it returns \<^verbatim>\<open>null\<close>. Through any
  later run in which that instance ID is not registered again, no call of
  \<^verbatim>\<open>getDroppedReferences\<close> returns it and \<^verbatim>\<open>getObject\<close> keeps returning \<^verbatim>\<open>null\<close>.
\<close>

theorem dropped_references_removed:
  assumes "s = hostRun ys JavaObjectStore_new"
    and "s' = snd (JavaObjectStore_getDroppedReferences s)"
  shows "\<forall>iid \<in> fst (JavaObjectStore_getDroppedReferences s).
           objectsById s' iid = None
           \<and> iid \<notin> ran (referenceInstanceId s')
           \<and> JavaObjectStore_getObject iid s' = None
           \<and> ((\<forall>x \<in> set xs. \<not> registers iid x) \<longrightarrow>
                 iid \<notin> reported xs s' \<and> JavaObjectStore_getObject iid (hostRun xs s') = None)"
proof
  fix iid assume i: "iid \<in> fst (JavaObjectStore_getDroppedReferences s)"
  have inv: "hostInv s" unfolding assms(1) by (rule hostInv_run [OF hostInv_new])
  note f = getDroppedReferences_facts [OF inv]
  from f(1) have inv': "hostInv s'" by (simp add: assms(2))
  from f(2) i have a: "objectsById s' iid = None" and b: "iid \<notin> ran (referenceInstanceId s')"
    by (simp_all add: assms(2))
  from a have c: "JavaObjectStore_getObject iid s' = None"
    by (simp add: JavaObjectStore_getObject_def)
  have d: "(\<forall>x \<in> set xs. \<not> registers iid x) \<longrightarrow>
                 iid \<notin> reported xs s' \<and> JavaObjectStore_getObject iid (hostRun xs s') = None"
  proof
    assume "\<forall>x \<in> set xs. \<not> registers iid x"
    from absent_not_reported [OF inv' a this]
    show "iid \<notin> reported xs s' \<and> JavaObjectStore_getObject iid (hostRun xs s') = None"
      by (simp add: JavaObjectStore_getObject_def)
  qed
  from a b c d show "objectsById s' iid = None
           \<and> iid \<notin> ran (referenceInstanceId s')
           \<and> JavaObjectStore_getObject iid s' = None
           \<and> ((\<forall>x \<in> set xs. \<not> registers iid x) \<longrightarrow>
                 iid \<notin> reported xs s' \<and> JavaObjectStore_getObject iid (hostRun xs s') = None)"
    by blast
qed

theorem dropped_references_removed_witness:
  "exampleHostStore = hostRun exampleHostOps JavaObjectStore_new
   \<and> ''A@10000'' \<in> fst (JavaObjectStore_getDroppedReferences exampleHostStore)
   \<and> \<not> registers ''A@10000'' (HostRegister 8 ''B@10001'')
   \<and> \<not> registers ''A@10000'' HostGetDroppedReferences
   \<and> JavaObjectStore_getObject ''A@10000''
        (snd (JavaObjectStore_getDroppedReferences exampleHostStore)) = None
   \<and> ''A@10000'' \<notin> reported [HostRegister 8 ''B@10001'', HostGetDroppedReferences]
        (snd (JavaObjectStore_getDroppedReferences exampleHostStore))"
proof -
  have i: "''A@10000'' \<in> fst (JavaObjectStore_getDroppedReferences exampleHostStore)"
    by (simp add: exampleHostStore_drain)
  have n: "\<forall>x \<in> set [HostRegister 8 ''B@10001'', HostGetDroppedReferences]. \<not> registers ''A@10000'' x"
    by simp
  from dropped_references_removed [OF exampleHostStore_def refl,
      of "[HostRegister 8 ''B@10001'', HostGetDroppedReferences]"] i n exampleHostStore_def
  show ?thesis by simp
qed


text \<open>
  C10 as stated fails: an instance ID that was reported and is then registered again,
  for an object that is reclaimed in its turn, is reported a second time.
\<close>

theorem dropped_twice_counterexample:
  "fst (JavaObjectStore_getDroppedReferences exampleHostStore) = {''A@10000''}
   \<and> fst (JavaObjectStore_getDroppedReferences exampleHostStore2) = {''A@10000''}"
  by (simp add: exampleHostStore_drain)
    (simp add: exampleHostStore2_eq JavaObjectStore_getDroppedReferences_def)

end
